theory Spec2Isabelle
  imports Main
begin

section \<open>Data model of \<^verbatim>\<open>infer.py\<close>\<close>

text \<open>
  Exceptions are values. \<open>Exception msg\<close> stands for whatever an external
  collaborator (the network, \<^verbatim>\<open>utils.decode\<close>) raises; the other constructors are the
  exceptions that the statements of \<^verbatim>\<open>infer.py\<close> raise themselves.
\<close>

datatype exn = Exception string | IndexError | KeyError | AttributeError | RuntimeError

type_synonym tensor = "int list"

text \<open>
  An element of \<^verbatim>\<open>data\<close> (\<^verbatim>\<open>ori_data\<close>) is a dict read through its key
  \<^verbatim>\<open>"sentence"\<close> only. An output record is the dict
  \<^verbatim>\<open>{"sentence": sentence, "entity": [...]}\<close>, each entity the dict
  \<^verbatim>\<open>{"text": [...], "type": ...}\<close>.
\<close>

record data_item =
  sentence :: "string list"

record entity_out =
  ent_text :: "string list"
  ent_type :: string

record inst = data_item +
  entity :: "entity_out list"

text \<open>
  A batch as the loader delivers it: the six tensors unpacked at lines 54, 110 and 169 and,
  last, the gold entity text. Tensors are flattened; the grid labels, the mask and the
  network's output have one element per grid cell of the batch.
\<close>

record data_batch =
  bert_inputs :: tensor
  grid_labels :: "nat list"
  grid_mask2d :: "bool list"
  pieces2word :: tensor
  dist_inputs :: tensor
  sent_length :: "nat list"
  entity_text :: "string list list"

text \<open>A decoded entity \<^verbatim>\<open>ent\<close>: \<^verbatim>\<open>ent[0]\<close> the token indices, \<^verbatim>\<open>ent[1]\<close> the type id.\<close>

type_synonym decoded = "nat list \<times> nat"

text \<open>
  The fields of \<^verbatim>\<open>config\<close> that \<^verbatim>\<open>Trainer\<close> reads. \<open>vocab\<close> is the table
  \<^verbatim>\<open>id2label\<close> behind \<^verbatim>\<open>config.vocab.id_to_label\<close>.
\<close>

record 'f config =
  batch_size :: nat
  clip_grad_norm :: 'f
  predict_path :: string
  vocab :: "nat \<rightharpoonup> string"

text \<open>
  The external collaborators, taken as parameters: the network (a function of the
  parameter state, the train/eval mode and the batch's tensors, which may raise), the
  loss, the autograd and optimizer operations on the parameter state \<open>'p\<close> (parameters,
  gradients and optimizer state together), \<^verbatim>\<open>torch.argmax\<close> on one cell's scores,
  \<^verbatim>\<open>utils.decode\<close>, the metric functions and \<^verbatim>\<open>json.dump\<close>. \<open>'f\<close> is the type of
  floating-point numbers, which are never inspected.
\<close>

record ('f, 'p) env =
  model :: "'p \<Rightarrow> bool \<Rightarrow> tensor \<Rightarrow> bool list \<Rightarrow> tensor \<Rightarrow> tensor \<Rightarrow> nat list
              \<Rightarrow> exn + 'f list list"
  criterion :: "'f list list \<Rightarrow> nat list \<Rightarrow> 'f"
  backward :: "'f \<Rightarrow> 'p \<Rightarrow> 'p"
  clip_grad_norm_fn :: "'p \<Rightarrow> 'f \<Rightarrow> 'p"
  optimizer_step :: "'p \<Rightarrow> 'p"
  zero_grad :: "'p \<Rightarrow> 'p"
  argmax :: "'f list \<Rightarrow> nat"
  utils_decode :: "nat list \<Rightarrow> string list list \<Rightarrow> nat list
              \<Rightarrow> exn + (nat \<times> nat \<times> nat \<times> decoded list list)"
  precision_recall_fscore_support :: "nat list \<Rightarrow> nat list \<Rightarrow> 'f \<times> 'f \<times> 'f"
  f1_score :: "nat list \<Rightarrow> nat list \<Rightarrow> 'f list"
  cal_f1 :: "nat \<Rightarrow> nat \<Rightarrow> nat \<Rightarrow> 'f \<times> 'f \<times> 'f"
  np_mean :: "'f list \<Rightarrow> 'f"
  json_dump :: "inst list \<Rightarrow> string"

text \<open>What \<^verbatim>\<open>logger.info\<close> is called with.\<close>

datatype 'f log_entry =
    LogExn exn
  | LogSentenceBatch "data_item list"
  | LogDataBatch data_batch
  | LogLabelF1 string "'f list"
  | LogTable string string "'f list list"

text \<open>
  The operations a method of \<^verbatim>\<open>Trainer\<close> performs on the network and the optimizer:
  a call of the network (with the network's train/eval mode and the gradient mode in
  force at the call), \<^verbatim>\<open>loss.backward()\<close>, \<^verbatim>\<open>clip_grad_norm_\<close>,
  \<^verbatim>\<open>optimizer.step()\<close>, \<^verbatim>\<open>optimizer.zero_grad()\<close> and \<^verbatim>\<open>scheduler.step()\<close>.
\<close>

datatype call = Forward bool bool | Backward | ClipGradNorm | OptimizerStep | ZeroGrad
  | SchedulerStep

text \<open>
  The state a method of \<^verbatim>\<open>Trainer\<close> acts on: the attributes of the trainer (the
  parameter state of \<^verbatim>\<open>self.model\<close> and \<^verbatim>\<open>self.optimizer\<close>, the network's
  train/eval mode, and \<^verbatim>\<open>self.scheduler\<close>, present only when some code has assigned
  it: a scheduler is its \<^verbatim>\<open>step\<close> method, acting on the optimizer's state), the
  lines logged so far, the file system with the list of completed writes, the gradient
  mode of \<^verbatim>\<open>torch\<close> (true when gradients are tracked; \<^verbatim>\<open>torch.no_grad()\<close> turns it
  off for its block and puts the former mode back when the block is left, by its end or
  by an exception), and the operations performed so far on the network and the optimizer.
\<close>

record ('f, 'p) state =
  params :: 'p
  training :: bool
  scheduler :: "('p \<Rightarrow> 'p) option"
  logged :: "'f log_entry list"
  files :: "string \<rightharpoonup> string"
  writes :: "(string \<times> string) list"
  grad_enabled :: bool
  calls :: "call list"

text \<open>
  \<^verbatim>\<open>Trainer.__init__\<close> (lines 21-43) assigns \<^verbatim>\<open>self.model\<close>,
  \<^verbatim>\<open>self.criterion\<close> and \<^verbatim>\<open>self.optimizer\<close>; the assignment of
  \<^verbatim>\<open>self.scheduler\<close> is commented out (lines 41-43), so a trainer it built has no such
  attribute. The trainer starts in a world with an empty log and no files, gradients
  tracked (the default mode) and nothing performed yet.
\<close>

definition Trainer_init :: "'p \<Rightarrow> ('f, 'p) state" where
  "Trainer_init p =
     \<lparr>params = p, training = True, scheduler = None, logged = [], files = Map.empty,
      writes = [], grad_enabled = True, calls = []\<rparr>"

text \<open>The record of a call of the network, made in the state \<open>st\<close>.\<close>

definition forward_call :: "('f, 'p) state \<Rightarrow> ('f, 'p) state" where
  "forward_call st = st\<lparr>calls := calls st @ [Forward (training st) (grad_enabled st)]\<rparr>"

text \<open>The local accumulators of the three loops.\<close>

record acc =
  pred_result :: "nat list list"
  label_result :: "nat list list"

record 'f train_locals = acc +
  loss_list :: "'f list"

record eval_locals = acc +
  total_ent_r :: nat
  total_ent_p :: nat
  total_ent_c :: nat

record predict_locals = eval_locals +
  result :: "inst list"
  i_off :: nat

section \<open>Library operations\<close>

text \<open>
  Boolean-mask indexing \<^verbatim>\<open>t[grid_mask2d]\<close>: the cells whose mask is true, in order; a
  mask of another shape raises IndexError.
\<close>

definition mask_select :: "bool list \<Rightarrow> 'a list \<Rightarrow> exn + 'a list" where
  "mask_select m xs =
     (if length m = length xs then Inr (map snd (filter fst (zip m xs))) else Inl IndexError)"

text \<open>\<^verbatim>\<open>torch.cat\<close> of one-dimensional tensors; an empty list raises RuntimeError.\<close>

fun torch_cat :: "'a list list \<Rightarrow> exn + 'a list" where
  "torch_cat [] = Inl RuntimeError"
| "torch_cat (t # ts) = Inr (concat (t # ts))"

text \<open>The slice \<^verbatim>\<open>xs[a:b]\<close> for \<open>0 \<le> a \<le> b\<close>.\<close>

definition py_slice :: "'a list \<Rightarrow> nat \<Rightarrow> nat \<Rightarrow> 'a list" where
  "py_slice xs a b = take (b - a) (drop a xs)"

text \<open>\<^verbatim>\<open>id_to_label\<close>: a dict lookup, KeyError on an id that is not registered.\<close>

definition id_to_label :: "(nat \<rightharpoonup> string) \<Rightarrow> nat \<Rightarrow> exn + string" where
  "id_to_label v k = (case v k of None \<Rightarrow> Inl KeyError | Some s \<Rightarrow> Inr s)"

text \<open>
  \<^verbatim>\<open>open(path, "w", encoding="utf-8")\<close> followed by a dump of \<open>content\<close>: the file
  holds \<open>content\<close> and nothing of what it held before.
\<close>

definition write_file :: "string \<Rightarrow> string \<Rightarrow> ('f, 'p) state \<Rightarrow> ('f, 'p) state" where
  "write_file path content st =
     st\<lparr>files := (files st)(path \<mapsto> content), writes := writes st @ [(path, content)]\<rparr>"

section \<open>\<^verbatim>\<open>Trainer.predict\<close> (lines 150-232)\<close>

text \<open>Line 183: \<^verbatim>\<open>[sentence[x] for x in ent[0]]\<close>, IndexError past the end.\<close>

fun index_tokens :: "string list \<Rightarrow> nat list \<Rightarrow> exn + string list" where
  "index_tokens s [] = Inr []"
| "index_tokens s (x # xs) =
     (if x < length s
      then (case index_tokens s xs of Inl e \<Rightarrow> Inl e | Inr ts \<Rightarrow> Inr (s ! x # ts))
      else Inl IndexError)"

text \<open>Lines 182-184: the entity dicts of one sentence, up to the first exception.\<close>

fun build_entities :: "(nat \<rightharpoonup> string) \<Rightarrow> string list \<Rightarrow> decoded list \<Rightarrow> exn + entity_out list" where
  "build_entities v s [] = Inr []"
| "build_entities v s (ent # ents) =
     (case index_tokens s (fst ent) of
        Inl e \<Rightarrow> Inl e
      | Inr ts \<Rightarrow>
          (case id_to_label v (snd ent) of
             Inl e \<Rightarrow> Inl e
           | Inr lab \<Rightarrow>
               (case build_entities v s ents of
                  Inl e \<Rightarrow> Inl e
                | Inr es \<Rightarrow> Inr (\<lparr>ent_text = ts, ent_type = lab\<rparr> # es))))"

text \<open>
  Lines 179-185, over \<^verbatim>\<open>zip(decode_entities, sentence_batch)\<close>: each finished record
  is appended to \<^verbatim>\<open>result\<close> at once, so an exception leaves the earlier ones there.
\<close>

fun emit_records :: "(nat \<rightharpoonup> string) \<Rightarrow> inst list \<Rightarrow> (decoded list \<times> data_item) list
    \<Rightarrow> inst list \<times> (exn + unit)" where
  "emit_records v res [] = (res, Inr ())"
| "emit_records v res (p # ps) =
     (case build_entities v (sentence (snd p)) (fst p) of
        Inl e \<Rightarrow> (res, Inl e)
      | Inr es \<Rightarrow> emit_records v (res @ [\<lparr>sentence = sentence (snd p), entity = es\<rparr>]) ps)"

text \<open>Line 166: \<^verbatim>\<open>sentence_batch = data[i:i+config.batch_size]\<close>.\<close>

definition sentence_batch :: "'f config \<Rightarrow> data_item list \<Rightarrow> predict_locals \<Rightarrow> data_item list" where
  "sentence_batch cfg data l = py_slice data (i_off l) (i_off l + batch_size cfg)"

text \<open>
  The body of the \<^verbatim>\<open>try\<close> (lines 166-196): the locals as the body leaves them, and
  \<open>Inl e\<close> when it raised \<open>e\<close>. Moving tensors between devices is not modelled.
\<close>

definition predict_try :: "('f, 'p) env \<Rightarrow> 'f config \<Rightarrow> ('f, 'p) state \<Rightarrow> data_item list
    \<Rightarrow> predict_locals \<Rightarrow> data_batch \<Rightarrow> predict_locals \<times> (exn + unit)" where
  "predict_try env cfg st data l b =
     (case model env (params st) (training st) (bert_inputs b) (grid_mask2d b) (dist_inputs b)
             (pieces2word b) (sent_length b) of
        Inl e \<Rightarrow> (l, Inl e)
      | Inr outputs0 \<Rightarrow>
          (case utils_decode env (map (argmax env) outputs0) (entity_text b) (sent_length b) of
             Inl e \<Rightarrow> (l, Inl e)
           | Inr (ent_c, ent_p, ent_r, decode_entities) \<Rightarrow>
               (case emit_records (vocab cfg) (result l)
                       (zip decode_entities (sentence_batch cfg data l)) of
                  (res, Inl e) \<Rightarrow> (l\<lparr>result := res\<rparr>, Inl e)
                | (res, Inr u) \<Rightarrow>
                    (let l1 = l\<lparr>result := res,
                                 total_ent_r := total_ent_r l + ent_r,
                                 total_ent_p := total_ent_p l + ent_p,
                                 total_ent_c := total_ent_c l + ent_c\<rparr>
                     in case mask_select (grid_mask2d b) (grid_labels b) of
                          Inl e \<Rightarrow> (l1, Inl e)
                        | Inr labs \<Rightarrow>
                            (case mask_select (grid_mask2d b) (map (argmax env) outputs0) of
                               Inl e \<Rightarrow> (l1, Inl e)
                             | Inr outs \<Rightarrow>
                                 (l1\<lparr>label_result := label_result l1 @ [labs],
                                     pred_result := pred_result l1 @ [outs],
                                     i_off := i_off l1 + batch_size cfg\<rparr>, Inr ()))))))"

text \<open>Lines 201-204: the record the handler appends for a sentence.\<close>

definition empty_instance :: "data_item \<Rightarrow> inst" where
  "empty_instance d = \<lparr>sentence = sentence d, entity = []\<rparr>"

text \<open>
  One iteration of the loop at line 164: the \<^verbatim>\<open>try\<close> body and, when it raised, the
  handler of lines 197-207. The body calls the network once, at line 171, before anything
  else of it can raise.
\<close>

definition predict_step :: "('f, 'p) env \<Rightarrow> 'f config \<Rightarrow> data_item list
    \<Rightarrow> ('f, 'p) state \<times> predict_locals \<Rightarrow> data_batch \<Rightarrow> ('f, 'p) state \<times> predict_locals" where
  "predict_step env cfg data sl b =
     (case predict_try env cfg (fst sl) data (snd sl) b of
        (l', Inr u) \<Rightarrow> (forward_call (fst sl), l')
      | (l', Inl e) \<Rightarrow>
          ((forward_call (fst sl))\<lparr>logged := logged (fst sl) @
              [LogExn e, LogSentenceBatch (sentence_batch cfg data (snd sl)), LogDataBatch b]\<rparr>,
           l'\<lparr>result := result l' @ map empty_instance (sentence_batch cfg data (snd sl)),
              i_off := i_off l' + batch_size cfg\<rparr>))"

fun predict_loop :: "('f, 'p) env \<Rightarrow> 'f config \<Rightarrow> data_item list
    \<Rightarrow> ('f, 'p) state \<times> predict_locals \<Rightarrow> data_batch list \<Rightarrow> ('f, 'p) state \<times> predict_locals" where
  "predict_loop env cfg data sl [] = sl"
| "predict_loop env cfg data sl (b # bs) = predict_loop env cfg data (predict_step env cfg data sl b) bs"

definition predict_init :: predict_locals where
  "predict_init =
     \<lparr>pred_result = [], label_result = [], total_ent_r = 0, total_ent_p = 0, total_ent_c = 0,
      result = [], i_off = 0\<rparr>"

text \<open>
  Lines 210-232, after the loop: the concatenations, the metrics and their log lines, the
  one write of the output file, and the entity F1 returned.
\<close>

definition predict_finish :: "('f, 'p) env \<Rightarrow> 'f config \<Rightarrow> string
    \<Rightarrow> ('f, 'p) state \<times> predict_locals \<Rightarrow> ('f, 'p) state \<times> (exn + 'f)" where
  "predict_finish env cfg epoch sl =
     (case torch_cat (label_result (snd sl)) of
        Inl e \<Rightarrow> (fst sl, Inl e)
      | Inr labs \<Rightarrow>
          (case torch_cat (pred_result (snd sl)) of
             Inl e \<Rightarrow> (fst sl, Inl e)
           | Inr preds \<Rightarrow>
               (let prf = precision_recall_fscore_support env labs preds;
                    ent = cal_f1 env (total_ent_c (snd sl)) (total_ent_p (snd sl))
                            (total_ent_r (snd sl));
                    st1 = (fst sl)\<lparr>logged := logged (fst sl) @
                            [LogLabelF1 ''TEST'' (f1_score env labs preds),
                             LogTable ''TEST'' epoch
                               [[snd (snd prf), fst prf, fst (snd prf)],
                                [fst ent, fst (snd ent), snd (snd ent)]]]\<rparr>
                in (write_file (predict_path cfg) (json_dump env (result (snd sl))) st1,
                    Inr (fst ent)))))"

text \<open>
  The whole method: the network is put in eval mode (line 151), the loop runs in the block
  of \<^verbatim>\<open>torch.no_grad()\<close> (line 163), and lines 210-232 follow the block.
\<close>

definition Trainer_predict :: "('f, 'p) env \<Rightarrow> 'f config \<Rightarrow> ('f, 'p) state \<Rightarrow> string
    \<Rightarrow> data_batch list \<Rightarrow> data_item list \<Rightarrow> ('f, 'p) state \<times> (exn + 'f)" where
  "Trainer_predict env cfg st epoch data_loader data =
     (case predict_loop env cfg data (st\<lparr>training := False, grad_enabled := False\<rparr>, predict_init)
             data_loader of
        (st', l) \<Rightarrow> predict_finish env cfg epoch (st'\<lparr>grad_enabled := grad_enabled st\<rparr>, l))"

section \<open>\<^verbatim>\<open>Trainer.train\<close> (lines 45-95)\<close>

definition train_init :: "'f train_locals" where
  "train_init = \<lparr>pred_result = [], label_result = [], loss_list = []\<rparr>"

text \<open>
  One iteration of the loop at line 51. Only the call of the network stands in the
  \<^verbatim>\<open>try\<close> (lines 56-61): its handler logs the exception and the batch and continues
  with the locals as they were. Everything after it propagates what it raises. Line 82
  reads \<^verbatim>\<open>self.scheduler\<close>: AttributeError when the trainer has no such attribute.
\<close>

definition train_batch :: "('f, 'p) env \<Rightarrow> 'f config \<Rightarrow> ('f, 'p) state \<Rightarrow> 'f train_locals
    \<Rightarrow> data_batch \<Rightarrow> ('f, 'p) state \<times> (exn + 'f train_locals)" where
  "train_batch env cfg st l b =
     (case model env (params st) (training st) (bert_inputs b) (grid_mask2d b) (dist_inputs b)
             (pieces2word b) (sent_length b) of
        Inl e \<Rightarrow> ((forward_call st)\<lparr>logged := logged st @ [LogExn e, LogDataBatch b]\<rparr>, Inr l)
      | Inr outputs0 \<Rightarrow>
          (case mask_select (grid_mask2d b) outputs0 of
             Inl e \<Rightarrow> (forward_call st, Inl e)
           | Inr outs_m \<Rightarrow>
               (case mask_select (grid_mask2d b) (grid_labels b) of
                  Inl e \<Rightarrow> (forward_call st, Inl e)
                | Inr labs_m \<Rightarrow>
                    (let loss = criterion env outs_m labs_m;
                         st1 = (forward_call st)\<lparr>params :=
                                 zero_grad env (optimizer_step env
                                   (clip_grad_norm_fn env (backward env loss (params st))
                                      (clip_grad_norm cfg))),
                                 calls := calls (forward_call st) @
                                   [Backward, ClipGradNorm, OptimizerStep, ZeroGrad]\<rparr>;
                         l1 = l\<lparr>loss_list := loss_list l @ [loss]\<rparr>
                     in case mask_select (grid_mask2d b) (grid_labels b) of
                          Inl e \<Rightarrow> (st1, Inl e)
                        | Inr labs \<Rightarrow>
                            (case mask_select (grid_mask2d b) (map (argmax env) outputs0) of
                               Inl e \<Rightarrow> (st1, Inl e)
                             | Inr outs \<Rightarrow>
                                 (case scheduler st1 of
                                    None \<Rightarrow> (st1, Inl AttributeError)
                                  | Some sched_step \<Rightarrow>
                                      (st1\<lparr>params := sched_step (params st1),
                                           calls := calls st1 @ [SchedulerStep]\<rparr>,
                                       Inr (l1\<lparr>label_result := label_result l1 @ [labs],
                                               pred_result := pred_result l1 @ [outs]\<rparr>))))))))"

fun train_loop :: "('f, 'p) env \<Rightarrow> 'f config \<Rightarrow> ('f, 'p) state \<Rightarrow> 'f train_locals
    \<Rightarrow> data_batch list \<Rightarrow> ('f, 'p) state \<times> (exn + 'f train_locals)" where
  "train_loop env cfg st l [] = (st, Inr l)"
| "train_loop env cfg st l (b # bs) =
     (case train_batch env cfg st l b of
        (st', Inl e) \<Rightarrow> (st', Inl e)
      | (st', Inr l') \<Rightarrow> train_loop env cfg st' l' bs)"

text \<open>Lines 84-95, after the loop: the concatenations, the metrics' log line, the F1 returned.\<close>

definition train_finish :: "('f, 'p) env \<Rightarrow> string \<Rightarrow> ('f, 'p) state \<Rightarrow> 'f train_locals
    \<Rightarrow> ('f, 'p) state \<times> (exn + 'f)" where
  "train_finish env epoch st l =
     (case torch_cat (label_result l) of
        Inl e \<Rightarrow> (st, Inl e)
      | Inr labs \<Rightarrow>
          (case torch_cat (pred_result l) of
             Inl e \<Rightarrow> (st, Inl e)
           | Inr preds \<Rightarrow>
               (let prf = precision_recall_fscore_support env labs preds
                in (st\<lparr>logged := logged st @
                        [LogTable ''Train'' epoch
                           [[np_mean env (loss_list l), snd (snd prf), fst prf, fst (snd prf)]]]\<rparr>,
                    Inr (snd (snd prf))))))"

definition Trainer_train :: "('f, 'p) env \<Rightarrow> 'f config \<Rightarrow> ('f, 'p) state \<Rightarrow> string
    \<Rightarrow> data_batch list \<Rightarrow> ('f, 'p) state \<times> (exn + 'f)" where
  "Trainer_train env cfg st epoch data_loader =
     (case train_loop env cfg (st\<lparr>training := True\<rparr>) train_init data_loader of
        (st', Inl e) \<Rightarrow> (st', Inl e)
      | (st', Inr l) \<Rightarrow> train_finish env epoch st' l)"

section \<open>\<^verbatim>\<open>Trainer.eval\<close> (lines 97-148)\<close>

definition eval_init :: eval_locals where
  "eval_init =
     \<lparr>pred_result = [], label_result = [], total_ent_r = 0, total_ent_p = 0, total_ent_c = 0\<rparr>"

text \<open>
  One iteration of the loop at line 107: the call of the network, the decoding and the
  masked selections. The body has no \<^verbatim>\<open>try\<close>: whatever the network, the decoder or
  the indexing raises leaves the loop. The iteration hands on the state as the body
  leaves it.
\<close>

definition eval_batch :: "('f, 'p) env \<Rightarrow> ('f, 'p) state \<Rightarrow> eval_locals \<Rightarrow> data_batch
    \<Rightarrow> ('f, 'p) state \<times> (exn + eval_locals)" where
  "eval_batch env st l b =
     (case model env (params st) (training st) (bert_inputs b) (grid_mask2d b) (dist_inputs b)
             (pieces2word b) (sent_length b) of
        Inl e \<Rightarrow> (forward_call st, Inl e)
      | Inr outputs0 \<Rightarrow>
          (case utils_decode env (map (argmax env) outputs0) (entity_text b) (sent_length b) of
             Inl e \<Rightarrow> (forward_call st, Inl e)
           | Inr (ent_c, ent_p, ent_r, decode_entities) \<Rightarrow>
               (let l1 = l\<lparr>total_ent_r := total_ent_r l + ent_r,
                            total_ent_p := total_ent_p l + ent_p,
                            total_ent_c := total_ent_c l + ent_c\<rparr>
                in case mask_select (grid_mask2d b) (grid_labels b) of
                     Inl e \<Rightarrow> (forward_call st, Inl e)
                   | Inr labs \<Rightarrow>
                       (case mask_select (grid_mask2d b) (map (argmax env) outputs0) of
                          Inl e \<Rightarrow> (forward_call st, Inl e)
                        | Inr outs \<Rightarrow>
                            (forward_call st,
                             Inr (l1\<lparr>label_result := label_result l1 @ [labs],
                                     pred_result := pred_result l1 @ [outs]\<rparr>))))))"

fun eval_loop :: "('f, 'p) env \<Rightarrow> ('f, 'p) state \<Rightarrow> eval_locals \<Rightarrow> data_batch list
    \<Rightarrow> ('f, 'p) state \<times> (exn + eval_locals)" where
  "eval_loop env st l [] = (st, Inr l)"
| "eval_loop env st l (b # bs) =
     (case eval_batch env st l b of
        (st', Inl e) \<Rightarrow> (st', Inl e)
      | (st', Inr l') \<Rightarrow> eval_loop env st' l' bs)"

text \<open>Lines 130-148, after the loop.\<close>

definition eval_finish :: "('f, 'p) env \<Rightarrow> string \<Rightarrow> bool \<Rightarrow> ('f, 'p) state \<Rightarrow> eval_locals
    \<Rightarrow> ('f, 'p) state \<times> (exn + 'f)" where
  "eval_finish env epoch is_test st l =
     (case torch_cat (label_result l) of
        Inl e \<Rightarrow> (st, Inl e)
      | Inr labs \<Rightarrow>
          (case torch_cat (pred_result l) of
             Inl e \<Rightarrow> (st, Inl e)
           | Inr preds \<Rightarrow>
               (let prf = precision_recall_fscore_support env labs preds;
                    ent = cal_f1 env (total_ent_c l) (total_ent_p l) (total_ent_r l);
                    title = (if \<not> is_test then ''EVAL'' else ''TEST'')
                in (st\<lparr>logged := logged st @
                        [LogLabelF1 title (f1_score env labs preds),
                         LogTable title epoch
                           [[snd (snd prf), fst prf, fst (snd prf)],
                            [fst ent, fst (snd ent), snd (snd ent)]]]\<rparr>,
                    Inr (fst ent)))))"

text \<open>
  The whole method: the network is put in eval mode (line 98), the loop runs in the block
  of \<^verbatim>\<open>torch.no_grad()\<close> (line 106), which is left by its end or by the exception of
  a batch, and lines 130-148 follow the block.
\<close>

definition Trainer_eval :: "('f, 'p) env \<Rightarrow> ('f, 'p) state \<Rightarrow> string \<Rightarrow> data_batch list \<Rightarrow> bool
    \<Rightarrow> ('f, 'p) state \<times> (exn + 'f)" where
  "Trainer_eval env st epoch data_loader is_test =
     (case eval_loop env (st\<lparr>training := False, grad_enabled := False\<rparr>) eval_init
             data_loader of
        (st', Inl e) \<Rightarrow> (st'\<lparr>grad_enabled := grad_enabled st\<rparr>, Inl e)
      | (st', Inr l) \<Rightarrow>
          eval_finish env epoch is_test (st'\<lparr>grad_enabled := grad_enabled st\<rparr>) l)"

section \<open>A concrete environment\<close>

text \<open>
  A small instance of the collaborators, for running the definitions: a network that
  raises on a batch with no input ids and otherwise scores every cell alike, a decoder
  that finds in a sentence of length \<open>n\<close> one entity, its last token, of type id
  \<open>n + 1\<close>, and a serializer that writes the sentences' tokens.
\<close>

definition demo_env :: "(int, nat) env" where
  "demo_env =
     \<lparr>model = (\<lambda>p tr bi mask di pw sl.
                 if bi = [] then Inl (Exception ''no input'')
                 else Inr (map (\<lambda>c. [0, 1]) mask)),
      criterion = (\<lambda>outs labs. int (length labs)),
      backward = (\<lambda>loss p. p + nat loss),
      clip_grad_norm_fn = (\<lambda>p c. p + 10),
      optimizer_step = (\<lambda>p. p * 2),
      zero_grad = (\<lambda>p. p + 100),
      argmax = (\<lambda>scores. length scores),
      utils_decode = (\<lambda>preds gold lens.
                 Inr (0, length lens, length gold, map (\<lambda>n. [([n - 1], n + 1)]) lens)),
      precision_recall_fscore_support = (\<lambda>labs preds. (0, 0, 0)),
      f1_score = (\<lambda>labs preds. []),
      cal_f1 = (\<lambda>c p r. (int c, int p, int r)),
      np_mean = (\<lambda>xs. 0),
      json_dump = (\<lambda>rs. concat (map (\<lambda>r. concat (sentence r) @ '';'') rs))\<rparr>"

definition demo_cfg :: "int config" where
  "demo_cfg = \<lparr>batch_size = 2, clip_grad_norm = 5, predict_path = ''out.json'',
     vocab = [2 \<mapsto> ''PER'', 3 \<mapsto> ''LOC'']\<rparr>"

text \<open>The same configuration with a registry that lacks the type id 3.\<close>

definition small_cfg :: "int config" where
  "small_cfg = \<lparr>batch_size = 2, clip_grad_norm = 5, predict_path = ''out.json'',
     vocab = [2 \<mapsto> ''PER'']\<rparr>"

definition demo_data :: "data_item list" where
  "demo_data = [\<lparr>sentence = [''John'']\<rparr>, \<lparr>sentence = [''in'', ''Paris'']\<rparr>,
                \<lparr>sentence = [''Ann'']\<rparr>]"

text \<open>The batches of \<open>demo_data\<close> at batch size 2, and one batch on which the network raises.\<close>

definition batch_a :: data_batch where
  "batch_a = \<lparr>bert_inputs = [101, 7, 102, 101, 8, 9, 102], grid_labels = [2, 0, 0, 0, 0, 1, 0, 0],
     grid_mask2d = [True, False, False, False, True, True, True, True],
     pieces2word = [], dist_inputs = [], sent_length = [1, 2], entity_text = [[''0-#-2''], []]\<rparr>"

definition batch_b :: data_batch where
  "batch_b = \<lparr>bert_inputs = [101, 5, 102], grid_labels = [2], grid_mask2d = [True],
     pieces2word = [], dist_inputs = [], sent_length = [1], entity_text = [[''0-#-2'']]\<rparr>"

definition batch_bad :: data_batch where
  "batch_bad = \<lparr>bert_inputs = [], grid_labels = [2], grid_mask2d = [True],
     pieces2word = [], dist_inputs = [], sent_length = [1], entity_text = [[''0-#-2'']]\<rparr>"

text \<open>The trainer of the runs below: built by \<^verbatim>\<open>__init__\<close>, network in eval mode.\<close>

definition demo_st :: "(int, nat) state" where
  "demo_st = (Trainer_init 0)\<lparr>training := False\<rparr>"

section \<open>What an output record must hold\<close>

text \<open>
  An entity dict \<open>eo\<close> renders the decoded entity \<open>ent\<close> of the sentence \<open>s\<close>: its text
  is the tokens of \<open>s\<close> at the decoded indices, in the decoded order, and its type is the
  registry's label of the decoded type id. A record renders a pair of
  \<^verbatim>\<open>zip(decode_entities, sentence_batch)\<close>: it carries the sentence and one such dict
  per decoded entity.
\<close>

definition entity_of :: "(nat \<rightharpoonup> string) \<Rightarrow> string list \<Rightarrow> decoded \<Rightarrow> entity_out \<Rightarrow> bool" where
  "entity_of v s ent eo \<longleftrightarrow>
     list_all2 (\<lambda>x t. x < length s \<and> t = s ! x) (fst ent) (ent_text eo)
     \<and> v (snd ent) = Some (ent_type eo)"

definition record_of :: "(nat \<rightharpoonup> string) \<Rightarrow> decoded list \<times> data_item \<Rightarrow> inst \<Rightarrow> bool" where
  "record_of v p rec \<longleftrightarrow>
     sentence rec = sentence (snd p)
     \<and> list_all2 (entity_of v (sentence (snd p))) (fst p) (entity rec)"

section \<open>GridCodec\<close>

text \<open>
  The encoder of the label grid (data preparation) and \<^verbatim>\<open>utils.decode\<close> are not in
  \<^verbatim>\<open>infer.py\<close>. The definitions of this section follow the specification's data model
  and its description of \<^verbatim>\<open>encode\<close> and \<^verbatim>\<open>decode\<close>; the trainer above uses the decoder
  through the parameter \<open>utils_decode\<close> only.
\<close>

text \<open>
  Modelled from the spec: the LabelGrid, missing with the encoder and decoder. An
  \<open>L \<times> L\<close> matrix of label ids, 0 for "no relation", read at the cells \<open>(i, j)\<close> with
  \<open>i, j < L\<close>. An EntitySpan is its token indices, in the order the encoder walks them, and
  its type id.
\<close>

type_synonym label_grid = "nat \<Rightarrow> nat \<Rightarrow> nat"
type_synonym span = "nat list \<times> nat"

text \<open>
  Modelled from the spec: the "continuation" label of a grid cell, missing with the codec.
  The spec gives it no number; it is a label id other than 0 and other than every type id.
\<close>

definition continuation :: nat where
  "continuation = 1"

text \<open>Modelled from the spec: writing one cell of the grid, missing with the encoder.\<close>

definition mark :: "label_grid \<Rightarrow> nat \<Rightarrow> nat \<Rightarrow> nat \<Rightarrow> label_grid" where
  "mark g i j v = g(i := (g i)(j := v))"

text \<open>
  Modelled from the spec: \<^verbatim>\<open>encode\<close>, missing from the sources. "For each span, walk its
  token indices in order, marking adjacency-chain cells between consecutive tokens in the
  span with a continuation label, and mark a closing cell linking the span's last token
  back to its first token with the span's type label."
\<close>

fun mark_chain :: "label_grid \<Rightarrow> nat list \<Rightarrow> label_grid" where
  "mark_chain g (a # b # rest) = mark_chain (mark g a b continuation) (b # rest)"
| "mark_chain g [a] = g"
| "mark_chain g [] = g"

definition encode_span :: "label_grid \<Rightarrow> span \<Rightarrow> label_grid" where
  "encode_span g s =
     (case fst s of
        [] \<Rightarrow> g
      | a # rest \<Rightarrow> mark (mark_chain g (a # rest)) (last (a # rest)) a (snd s))"

definition encode :: "string list \<Rightarrow> span list \<Rightarrow> label_grid" where
  "encode sent spans = foldl encode_span (\<lambda>i j. 0) spans"

text \<open>
  Modelled from the spec: step 1 and 2 of \<^verbatim>\<open>decode\<close>, missing from the sources. A cell
  \<open>(i, j)\<close> carrying the continuation label is an edge \<open>i \<rightarrow> j\<close>. Paths are enumerated
  "from every node with no incoming continuation edge, forward until no outgoing edge
  exists, collecting all intermediate simple paths"; the enumeration "must bound depth by
  sentence length and must not revisit a node within one path".
\<close>

definition successors :: "label_grid \<Rightarrow> nat \<Rightarrow> nat list \<Rightarrow> nat list" where
  "successors g L path = filter (\<lambda>j. g (last path) j = continuation \<and> j \<notin> set path) [0..<L]"

fun paths_from :: "label_grid \<Rightarrow> nat \<Rightarrow> nat \<Rightarrow> nat list \<Rightarrow> nat list list" where
  "paths_from g L 0 path = [path]"
| "paths_from g L (Suc n) path =
     path # concat (map (\<lambda>j. paths_from g L n (path @ [j])) (successors g L path))"

definition span_starts :: "label_grid \<Rightarrow> nat \<Rightarrow> nat list" where
  "span_starts g L = filter (\<lambda>i. \<not> list_ex (\<lambda>j. g j i = continuation) [0..<L]) [0..<L]"

text \<open>
  Modelled from the spec: step 3 of \<^verbatim>\<open>decode\<close>, missing from the sources. A path forms an
  entity when "a type-closure edge exists from the path's last token back to its first
  token"; the entity is the path's tokens with that edge's label. Other paths are
  discarded.
\<close>

definition closes :: "label_grid \<Rightarrow> nat list \<Rightarrow> bool" where
  "closes g path \<longleftrightarrow>
     g (last path) (hd path) \<noteq> 0 \<and> g (last path) (hd path) \<noteq> continuation"

definition candidates :: "label_grid \<Rightarrow> nat \<Rightarrow> span list" where
  "candidates g L =
     map (\<lambda>p. (p, g (last p) (hd p)))
       (filter (closes g) (concat (map (\<lambda>s. paths_from g L L [s]) (span_starts g L))))"

text \<open>
  Modelled from the spec: step 4 of \<^verbatim>\<open>decode\<close>, missing from the sources. "Deduplicate
  decoded entities by (frozen token-index set)": of the entities with one token set, the
  first found is kept.
\<close>

definition dedup_step :: "span list \<Rightarrow> span \<Rightarrow> span list" where
  "dedup_step kept e =
     (if list_ex (\<lambda>k. set (fst k) = set (fst e)) kept then kept else kept @ [e])"

definition dedup_entities :: "span list \<Rightarrow> span list" where
  "dedup_entities es = foldl dedup_step [] es"

text \<open>
  Modelled from the spec: \<^verbatim>\<open>decode\<close> for one sentence of true length \<open>L\<close>, missing from
  the sources: the decoded entity list. The counts of step 5 are not modelled.
\<close>

definition decode_sentence :: "label_grid \<Rightarrow> nat \<Rightarrow> span list" where
  "decode_sentence g L = dedup_entities (candidates g L)"

text \<open>
  Modelled from the spec: a well-formed span set for a sentence of length \<open>L\<close>. Every span
  has a non-empty set of token indices below \<open>L\<close>, walked in ascending order, and a type
  id that is a label of its own (neither 0 nor the continuation label); no token belongs
  to two spans. Spans may be discontinuous, and one may lie inside the gap of another.
\<close>

definition well_formed :: "nat \<Rightarrow> span list \<Rightarrow> bool" where
  "well_formed L spans \<longleftrightarrow>
     list_all (\<lambda>s. fst s \<noteq> [] \<and> sorted_wrt (<) (fst s) \<and> list_all (\<lambda>i. i < L) (fst s)
                  \<and> snd s \<noteq> 0 \<and> snd s \<noteq> continuation) spans
     \<and> distinct (concat (map fst spans))"

section \<open>Runs of the Predict loop without a half-finished batch\<close>

text \<open>
  An iteration is clean when its \<^verbatim>\<open>try\<close> body either raised before it appended any
  record (as when the network or the decoder raises) or completed with one record per
  sentence of the batch. A run is clean when each of its iterations is.
\<close>

definition clean_step :: "('f, 'p) env \<Rightarrow> 'f config \<Rightarrow> data_item list
    \<Rightarrow> ('f, 'p) state \<times> predict_locals \<Rightarrow> data_batch \<Rightarrow> bool" where
  "clean_step env cfg data sl b =
     (case predict_try env cfg (fst sl) data (snd sl) b of
        (l', Inl e) \<Rightarrow> result l' = result (snd sl)
      | (l', Inr u) \<Rightarrow>
          length (result l') = length (result (snd sl)) + length (sentence_batch cfg data (snd sl)))"

fun clean_run :: "('f, 'p) env \<Rightarrow> 'f config \<Rightarrow> data_item list
    \<Rightarrow> ('f, 'p) state \<times> predict_locals \<Rightarrow> data_batch list \<Rightarrow> bool" where
  "clean_run env cfg data sl [] = True"
| "clean_run env cfg data sl (b # bs) =
     (clean_step env cfg data sl b \<and> clean_run env cfg data (predict_step env cfg data sl b) bs)"

section \<open>Evaluating the definitions\<close>

lemmas demo_defs = demo_env_def demo_cfg_def small_cfg_def demo_data_def batch_a_def batch_b_def
  batch_bad_def demo_st_def Trainer_init_def predict_init_def train_init_def eval_init_def

lemmas run_defs = predict_try_def predict_step_def predict_finish_def Trainer_predict_def
  sentence_batch_def py_slice_def mask_select_def id_to_label_def write_file_def
  empty_instance_def train_batch_def train_finish_def Trainer_train_def eval_batch_def
  eval_finish_def Trainer_eval_def forward_call_def Let_def

text \<open>Recording a call of the network changes nothing else of the state.\<close>

lemma forward_call_frame [simp]:
  "params (forward_call st) = params st"
  "training (forward_call st) = training st"
  "scheduler (forward_call st) = scheduler st"
  "logged (forward_call st) = logged st"
  "files (forward_call st) = files st"
  "writes (forward_call st) = writes st"
  "grad_enabled (forward_call st) = grad_enabled st"
  by (simp_all add: forward_call_def)

section \<open>\<^verbatim>\<open>Trainer.predict\<close>: the sentence offset\<close>

lemma predict_try_offset_raise:
  "predict_try env cfg st data l b = (l', Inl e) \<Longrightarrow> i_off l' = i_off l"
  by (auto simp: predict_try_def Let_def split: sum.splits prod.splits)

lemma predict_try_offset_ok:
  "predict_try env cfg st data l b = (l', Inr u) \<Longrightarrow> i_off l' = i_off l + batch_size cfg"
  by (auto simp: predict_try_def Let_def split: sum.splits prod.splits)

lemma predict_step_offset:
  "i_off (snd (predict_step env cfg data sl b)) = i_off (snd sl) + batch_size cfg"
proof (cases "predict_try env cfg (fst sl) data (snd sl) b")
  case (Pair l' r)
  show ?thesis
  proof (cases r)
    case (Inl e)
    with Pair predict_try_offset_raise [of env cfg "fst sl" data "snd sl" b l' e]
    show ?thesis by (simp add: predict_step_def)
  next
    case (Inr u)
    with Pair predict_try_offset_ok [of env cfg "fst sl" data "snd sl" b l' u]
    show ?thesis by (simp add: predict_step_def)
  qed
qed

lemma predict_loop_append:
  "predict_loop env cfg data sl (pre @ post) =
     predict_loop env cfg data (predict_loop env cfg data sl pre) post"
  by (induction pre arbitrary: sl) simp_all

lemma predict_loop_offset:
  "i_off (snd (predict_loop env cfg data sl bs)) = i_off (snd sl) + length bs * batch_size cfg"
  by (induction bs arbitrary: sl) (simp_all add: predict_step_offset)

text \<open>
  Claim C9. Every iteration of the Predict loop, whether its \<^verbatim>\<open>try\<close> body completes
  or its handler runs, adds exactly \<^verbatim>\<open>config.batch_size\<close> to the offset \<^verbatim>\<open>i\<close>.
  The batch that follows \<open>k\<close> earlier batches (\<open>k = length pre\<close>) is therefore processed
  with \<^verbatim>\<open>sentence_batch = data[k*batch_size : (k+1)*batch_size]\<close>, whatever happened to
  the earlier batches.
\<close>

theorem predict_offset_alignment:
  "i_off (snd (predict_step env cfg data sl b)) = i_off (snd sl) + batch_size cfg
   \<and> predict_loop env cfg data sl (pre @ b # post) =
       predict_loop env cfg data (predict_step env cfg data (predict_loop env cfg data sl pre) b) post
   \<and> sentence_batch cfg data (snd (predict_loop env cfg data (st, predict_init) pre)) =
       py_slice data (length pre * batch_size cfg) ((length pre + 1) * batch_size cfg)"
  by (simp add: predict_step_offset predict_loop_append sentence_batch_def predict_loop_offset
      predict_init_def add.commute)

theorem predict_offset_alignment_witness:
  "i_off (snd (predict_step demo_env demo_cfg demo_data (demo_st, predict_init) batch_a)) = 2
   \<and> sentence_batch demo_cfg demo_data
        (snd (predict_loop demo_env demo_cfg demo_data (demo_st, predict_init) [batch_a]))
      = [\<lparr>sentence = [''Ann'']\<rparr>]"
  using predict_offset_alignment [of demo_env demo_cfg demo_data "(demo_st, predict_init)"
      batch_a "[batch_a]" "[]" demo_st]
  by (simp add: demo_defs py_slice_def)

section \<open>\<^verbatim>\<open>Trainer.predict\<close>: the records of a batch\<close>

lemma emit_records_prefix:
  "emit_records v res ps = (res', r) \<Longrightarrow>
     \<exists>recs. res' = res @ recs \<and> length recs \<le> length ps
       \<and> map sentence recs = map (\<lambda>p. sentence (snd p)) (take (length recs) ps)"
proof (induction ps arbitrary: res)
  case Nil
  then show ?case by simp
next
  case (Cons p ps)
  show ?case
  proof (cases "build_entities v (sentence (snd p)) (fst p)")
    case (Inl e)
    with Cons.prems show ?thesis by simp
  next
    case (Inr es)
    with Cons.prems
    have "emit_records v (res @ [\<lparr>sentence = sentence (snd p), entity = es\<rparr>]) ps = (res', r)"
      by simp
    from Cons.IH [OF this] obtain recs where
      r: "res' = (res @ [\<lparr>sentence = sentence (snd p), entity = es\<rparr>]) @ recs"
         "length recs \<le> length ps"
         "map sentence recs = map (\<lambda>p. sentence (snd p)) (take (length recs) ps)"
      by blast
    let ?recs = "\<lparr>sentence = sentence (snd p), entity = es\<rparr> # recs"
    from r have "res' = res @ ?recs \<and> length ?recs \<le> length (p # ps)
       \<and> map sentence ?recs = map (\<lambda>p. sentence (snd p)) (take (length ?recs) (p # ps))"
      by simp
    then show ?thesis by blast
  qed
qed

lemma index_tokens_ok:
  "index_tokens s xs = Inr ts \<Longrightarrow> list_all2 (\<lambda>x t. x < length s \<and> t = s ! x) xs ts"
  by (induction xs arbitrary: ts) (auto split: if_splits sum.splits)

lemma build_entities_ok:
  "build_entities v s ents = Inr es \<Longrightarrow> list_all2 (entity_of v s) ents es"
proof (induction ents arbitrary: es)
  case Nil
  then show ?case by simp
next
  case (Cons ent ents)
  then show ?case
    by (auto simp: entity_of_def id_to_label_def index_tokens_ok
        split: sum.splits option.splits)
qed

lemma emit_records_ok:
  "emit_records v res ps = (res', Inr u) \<Longrightarrow>
     \<exists>recs. res' = res @ recs \<and> list_all2 (record_of v) ps recs"
proof (induction ps arbitrary: res)
  case Nil
  then show ?case by simp
next
  case (Cons p ps)
  show ?case
  proof (cases "build_entities v (sentence (snd p)) (fst p)")
    case (Inl e)
    with Cons.prems show ?thesis by simp
  next
    case (Inr es)
    let ?r = "\<lparr>sentence = sentence (snd p), entity = es\<rparr>"
    from Inr Cons.prems have "emit_records v (res @ [?r]) ps = (res', Inr u)"
      by simp
    from Cons.IH [OF this] obtain recs where
      r: "res' = (res @ [?r]) @ recs" "list_all2 (record_of v) ps recs"
      by blast
    from Inr have "record_of v p ?r"
      by (simp add: record_of_def build_entities_ok)
    with r have "res' = res @ (?r # recs) \<and> list_all2 (record_of v) (p # ps) (?r # recs)"
      by simp
    then show ?thesis by blast
  qed
qed

lemma predict_try_ok_result:
  assumes "predict_try env cfg st data l b = (l', Inr u)"
  shows "\<exists>outputs0 c p r dec.
           model env (params st) (training st) (bert_inputs b) (grid_mask2d b) (dist_inputs b)
             (pieces2word b) (sent_length b) = Inr outputs0
         \<and> utils_decode env (map (argmax env) outputs0) (entity_text b) (sent_length b)
             = Inr (c, p, r, dec)
         \<and> fst (emit_records (vocab cfg) (result l) (zip dec (sentence_batch cfg data l)))
             = result l'
         \<and> snd (emit_records (vocab cfg) (result l) (zip dec (sentence_batch cfg data l)))
             = Inr ()"
  using assms
  by (auto simp: predict_try_def Let_def split: sum.splits prod.splits)

text \<open>
  Claim C7 says that on the success path every sentence of a batch gets exactly one
  record. The loop of line 179 runs over \<^verbatim>\<open>zip(decode_entities, sentence_batch)\<close>, which
  stops at the shorter of the two. In the run below the slice of line 166 holds two
  sentences and the decoder returns one entity list; the \<^verbatim>\<open>try\<close> body completes and
  one record is appended.
\<close>

theorem predict_success_fewer_records:
  "snd (predict_try demo_env demo_cfg demo_st demo_data predict_init batch_b) = Inr ()
   \<and> length (sentence_batch demo_cfg demo_data predict_init) = 2
   \<and> map sentence
        (result (fst (predict_try demo_env demo_cfg demo_st demo_data predict_init batch_b)))
       = [[''John'']]"
  by (simp add: demo_defs run_defs)

text \<open>
  Claim C7, amended. On the success path of a Predict batch (the \<^verbatim>\<open>try\<close> body
  completes) exactly one record is appended for every pair of
  \<^verbatim>\<open>zip(decode_entities, sentence_batch)\<close>, that is for each of the first
  \<open>min (len decode_entities) (len sentence_batch)\<close> sentences of the batch: for every
  sentence when the decoder returned at least as many entity lists as the batch has
  sentences. Each record carries its sentence, and each of its entities has as text the
  tokens of the original sentence at the decoded indices, in decoded order, and as type
  the registry's label string of the decoded type id.
\<close>

theorem predict_success_zip_records:
  assumes "model env (params st) (training st) (bert_inputs b) (grid_mask2d b) (dist_inputs b)
             (pieces2word b) (sent_length b) = Inr outputs0"
      and "utils_decode env (map (argmax env) outputs0) (entity_text b) (sent_length b)
             = Inr (c, p, r, dec)"
      and "predict_try env cfg st data l b = (l', Inr u)"
  shows "\<exists>recs. result l' = result l @ recs
           \<and> length recs = min (length dec) (length (sentence_batch cfg data l))
           \<and> list_all2 (record_of (vocab cfg)) (zip dec (sentence_batch cfg data l)) recs"
proof -
  from predict_try_ok_result [OF assms(3)] assms(1,2)
  have "emit_records (vocab cfg) (result l) (zip dec (sentence_batch cfg data l))
          = (result l', Inr ())"
    by (auto simp: prod_eq_iff)
  from emit_records_ok [OF this] obtain recs where
    r: "result l' = result l @ recs"
       "list_all2 (record_of (vocab cfg)) (zip dec (sentence_batch cfg data l)) recs"
    by blast
  from r(2) have "length (zip dec (sentence_batch cfg data l)) = length recs"
    by (rule list_all2_lengthD)
  then have "length recs = min (length dec) (length (sentence_batch cfg data l))"
    by simp
  with r show ?thesis by blast
qed

theorem predict_success_zip_records_witness:
  "snd (predict_try demo_env demo_cfg demo_st demo_data predict_init batch_a) = Inr ()
   \<and> (\<exists>recs. result (fst (predict_try demo_env demo_cfg demo_st demo_data predict_init batch_a))
                = result predict_init @ recs
          \<and> length recs
              = min (length [[([0], 2)], [([1 :: nat], 3 :: nat)]])
                  (length (sentence_batch demo_cfg demo_data predict_init))
          \<and> list_all2 (record_of (vocab demo_cfg))
                (zip [[([0], 2)], [([1], 3)]] (sentence_batch demo_cfg demo_data predict_init)) recs)
   \<and> result (fst (predict_try demo_env demo_cfg demo_st demo_data predict_init batch_a))
       = [\<lparr>sentence = [''John''], entity = [\<lparr>ent_text = [''John''], ent_type = ''PER''\<rparr>]\<rparr>,
          \<lparr>sentence = [''in'', ''Paris''],
           entity = [\<lparr>ent_text = [''Paris''], ent_type = ''LOC''\<rparr>]\<rparr>]"
proof -
  let ?l' = "fst (predict_try demo_env demo_cfg demo_st demo_data predict_init batch_a)"
  have h1: "model demo_env (params demo_st) (training demo_st) (bert_inputs batch_a)
              (grid_mask2d batch_a) (dist_inputs batch_a) (pieces2word batch_a)
              (sent_length batch_a) = Inr (replicate 8 [0, 1])"
    by (simp add: demo_defs numeral_eq_Suc)
  have h2: "utils_decode demo_env (map (argmax demo_env) (replicate 8 [0, 1]))
              (entity_text batch_a) (sent_length batch_a)
            = Inr (0, 2, 2, [[([0], 2)], [([1], 3)]])"
    by (simp add: demo_defs)
  have h4: "snd (predict_try demo_env demo_cfg demo_st demo_data predict_init batch_a) = Inr ()"
    by (simp add: demo_defs run_defs)
  then have h5: "predict_try demo_env demo_cfg demo_st demo_data predict_init batch_a
                 = (?l', Inr ())"
    by (simp add: prod_eq_iff)
  have h6: "result ?l'
       = [\<lparr>sentence = [''John''], entity = [\<lparr>ent_text = [''John''], ent_type = ''PER''\<rparr>]\<rparr>,
          \<lparr>sentence = [''in'', ''Paris''],
           entity = [\<lparr>ent_text = [''Paris''], ent_type = ''LOC''\<rparr>]\<rparr>]"
    by (simp add: demo_defs run_defs)
  from predict_success_zip_records [OF h1 h2 h5] h4 h6 show ?thesis
    by blast
qed

lemma predict_try_result_prefix:
  assumes "predict_try env cfg st data l b = (l', r)"
  shows "\<exists>recs. result l' = result l @ recs
           \<and> length recs \<le> length (sentence_batch cfg data l)
           \<and> map sentence recs = take (length recs) (map sentence (sentence_batch cfg data l))"
proof -
  let ?sb = "sentence_batch cfg data l"
  have emit: "\<exists>recs. res' = result l @ recs \<and> length recs \<le> length ?sb
           \<and> map sentence recs = take (length recs) (map sentence ?sb)"
    if "emit_records (vocab cfg) (result l) (zip dec ?sb) = (res', q)" for dec res' q
  proof -
    from emit_records_prefix [OF that] obtain recs where
      p: "res' = result l @ recs" "length recs \<le> length (zip dec ?sb)"
         "map sentence recs = map (\<lambda>p. sentence (snd p)) (take (length recs) (zip dec ?sb))"
      by blast
    have "map (\<lambda>p. sentence (snd p)) (take (length recs) (zip dec ?sb))
            = map sentence (map snd (zip (take (length recs) dec) (take (length recs) ?sb)))"
      by (simp add: take_zip)
    also have "\<dots> = map sentence (take (length recs) ?sb)"
    proof -
      from p(2) have "length (take (length recs) dec) = length (take (length recs) ?sb)"
        by simp
      then show ?thesis by (simp only: map_snd_zip)
    qed
    finally have "map sentence recs = take (length recs) (map sentence ?sb)"
      using p(3) by (simp add: take_map)
    with p show ?thesis by auto
  qed
  have trivial: "\<exists>recs. result l = result l @ recs \<and> length recs \<le> length ?sb
           \<and> map sentence recs = take (length recs) (map sentence ?sb)"
    by (rule exI [of _ "[]"]) simp
  from assms show ?thesis
    by (auto simp: predict_try_def Let_def split: sum.splits prod.splits
        dest: emit intro: trivial)
qed

text \<open>
  Claim C10. When the \<^verbatim>\<open>try\<close> body of a Predict batch raises after some records of
  the batch were appended (\<open>recs\<close>, the records of the first \<open>length recs\<close> sentences of
  the batch), the handler appends one empty-entity record for every sentence of the batch:
  the sentences already processed appear twice in \<^verbatim>\<open>result\<close>.
\<close>

theorem predict_handler_duplicates:
  assumes "predict_try env cfg st data l b = (l', Inl e)"
  shows "\<exists>recs. result l' = result l @ recs
           \<and> map sentence recs = take (length recs) (map sentence (sentence_batch cfg data l))
           \<and> result (snd (predict_step env cfg data (st, l) b)) =
               result l @ recs @ map empty_instance (sentence_batch cfg data l)"
proof -
  from predict_try_result_prefix [OF assms] obtain recs where
    r: "result l' = result l @ recs"
       "map sentence recs = take (length recs) (map sentence (sentence_batch cfg data l))"
    by blast
  from assms r(1)
  have "result (snd (predict_step env cfg data (st, l) b)) =
          result l @ recs @ map empty_instance (sentence_batch cfg data l)"
    by (simp add: predict_step_def)
  with r show ?thesis by blast
qed

theorem predict_handler_duplicates_witness:
  "snd (predict_try demo_env small_cfg demo_st demo_data predict_init batch_a) = Inl KeyError
   \<and> map sentence (result
         (snd (predict_step demo_env small_cfg demo_data (demo_st, predict_init) batch_a)))
       = [[''John''], [''John''], [''in'', ''Paris'']]
   \<and> (\<exists>recs. result (fst (predict_try demo_env small_cfg demo_st demo_data predict_init batch_a))
                = result predict_init @ recs
          \<and> map sentence recs
              = take (length recs) (map sentence (sentence_batch small_cfg demo_data predict_init))
          \<and> result (snd (predict_step demo_env small_cfg demo_data (demo_st, predict_init) batch_a))
              = result predict_init @ recs
                  @ map empty_instance (sentence_batch small_cfg demo_data predict_init))"
proof -
  let ?l' = "fst (predict_try demo_env small_cfg demo_st demo_data predict_init batch_a)"
  have h1: "snd (predict_try demo_env small_cfg demo_st demo_data predict_init batch_a)
            = Inl KeyError"
    by (simp add: demo_defs run_defs)
  then have h2: "predict_try demo_env small_cfg demo_st demo_data predict_init batch_a
                 = (?l', Inl KeyError)"
    by (simp add: prod_eq_iff)
  have h3: "map sentence (result
         (snd (predict_step demo_env small_cfg demo_data (demo_st, predict_init) batch_a)))
       = [[''John''], [''John''], [''in'', ''Paris'']]"
    by (simp add: demo_defs run_defs)
  from predict_handler_duplicates [OF h2] h1 h3 show ?thesis
    by blast
qed

text \<open>
  On a clean run over enough batches to cover the data, the loop leaves exactly one
  record per input sentence, in order, each with its sentence.
\<close>

lemma clean_step_sentences:
  assumes "clean_step env cfg data sl b"
  shows "map sentence (result (snd (predict_step env cfg data sl b)))
           = map sentence (result (snd sl)) @ map sentence (sentence_batch cfg data (snd sl))"
proof -
  obtain l' r where t: "predict_try env cfg (fst sl) data (snd sl) b = (l', r)"
    by (cases "predict_try env cfg (fst sl) data (snd sl) b")
  from predict_try_result_prefix [OF t] obtain recs where
    recs: "result l' = result (snd sl) @ recs"
      "length recs \<le> length (sentence_batch cfg data (snd sl))"
      "map sentence recs = take (length recs) (map sentence (sentence_batch cfg data (snd sl)))"
    by blast
  show ?thesis
  proof (cases r)
    case (Inl e)
    with assms t have "result l' = result (snd sl)" by (simp add: clean_step_def)
    with t Inl show ?thesis
      by (simp add: predict_step_def empty_instance_def o_def)
  next
    case (Inr u)
    with assms t recs(1) have "length recs = length (sentence_batch cfg data (snd sl))"
      by (simp add: clean_step_def)
    with recs(3) have "map sentence recs = map sentence (sentence_batch cfg data (snd sl))"
      by simp
    with t Inr recs(1) show ?thesis by (simp add: predict_step_def)
  qed
qed

lemma slice_append:
  "py_slice xs a (a + n) @ py_slice xs (a + n) (a + n + m) = py_slice xs a (a + (n + m))"
proof -
  have "take (n + m) (drop a xs) = take n (drop a xs) @ take m (drop n (drop a xs))"
    by (rule take_add)
  then show ?thesis
    by (simp add: py_slice_def add.commute)
qed

lemma clean_run_sentences:
  "clean_run env cfg data sl bs \<Longrightarrow>
     map sentence (result (snd (predict_loop env cfg data sl bs)))
       = map sentence (result (snd sl))
         @ map sentence (py_slice data (i_off (snd sl))
                           (i_off (snd sl) + length bs * batch_size cfg))"
proof (induction bs arbitrary: sl)
  case Nil
  then show ?case by (simp add: py_slice_def)
next
  case (Cons b bs)
  let ?sl = "predict_step env cfg data sl b"
  from Cons.prems have c: "clean_step env cfg data sl b" "clean_run env cfg data ?sl bs"
    by simp_all
  have "map sentence (result (snd (predict_loop env cfg data sl (b # bs))))
          = map sentence (result (snd ?sl))
            @ map sentence (py_slice data (i_off (snd ?sl))
                              (i_off (snd ?sl) + length bs * batch_size cfg))"
    using Cons.IH [OF c(2)] by simp
  also have "\<dots> = map sentence (result (snd sl))
            @ map sentence (py_slice data (i_off (snd sl)) (i_off (snd sl) + batch_size cfg)
                 @ py_slice data (i_off (snd sl) + batch_size cfg)
                     (i_off (snd sl) + batch_size cfg + length bs * batch_size cfg))"
    by (simp add: clean_step_sentences [OF c(1)] predict_step_offset sentence_batch_def)
  also have "\<dots> = map sentence (result (snd sl))
            @ map sentence (py_slice data (i_off (snd sl))
                 (i_off (snd sl) + length (b # bs) * batch_size cfg))"
    by (simp only: slice_append) simp
  finally show ?case .
qed

lemma predict_clean_run_one_record_per_sentence:
  assumes "clean_run env cfg data (st\<lparr>training := False, grad_enabled := False\<rparr>, predict_init)
             data_loader"
      and "length data \<le> length data_loader * batch_size cfg"
  shows "map sentence (result (snd (predict_loop env cfg data
            (st\<lparr>training := False, grad_enabled := False\<rparr>, predict_init) data_loader)))
         = map sentence data"
  using clean_run_sentences [OF assms(1)] assms(2)
  by (simp add: predict_init_def py_slice_def)

text \<open>
  Claim C1 says that a Predict pass over \<open>N\<close> sentences emits exactly \<open>N\<close> records however
  many batches raise. The run below has three sentences in two batches; in the first batch
  the registry lookup of line 184 raises KeyError for the second sentence, after the first
  sentence's record was appended. The pass returns normally and writes four records: the
  first sentence twice.
\<close>

theorem predict_record_count_exceeds_input:
  "length demo_data = 3
   \<and> map sentence (result (snd (predict_loop demo_env small_cfg demo_data
         ((Trainer_init 0)\<lparr>training := False\<rparr>, predict_init) [batch_a, batch_b])))
       = [[''John''], [''John''], [''in'', ''Paris''], [''Ann'']]
   \<and> snd (Trainer_predict demo_env small_cfg (Trainer_init 0) ''Final'' [batch_a, batch_b]
         demo_data) = Inr 0
   \<and> writes (fst (Trainer_predict demo_env small_cfg (Trainer_init 0) ''Final''
         [batch_a, batch_b] demo_data))
       = [(''out.json'', ''John;John;inParis;Ann;'')]"
  by (simp add: demo_defs run_defs)

section \<open>\<^verbatim>\<open>Trainer.predict\<close>: the output file\<close>

lemma predict_step_writes:
  "writes (fst (predict_step env cfg data sl b)) = writes (fst sl)
   \<and> files (fst (predict_step env cfg data sl b)) = files (fst sl)"
  by (simp add: predict_step_def forward_call_def split: prod.splits sum.splits)

lemma predict_loop_writes:
  "writes (fst (predict_loop env cfg data sl bs)) = writes (fst sl)
   \<and> files (fst (predict_loop env cfg data sl bs)) = files (fst sl)"
  by (induction bs arbitrary: sl) (simp_all add: predict_step_writes)

text \<open>
  A pass that gets past the concatenations of lines 210-211 writes the file once, after the
  loop, with the dump of the whole \<^verbatim>\<open>result\<close> list; a pass that raises there writes
  nothing.
\<close>

lemma predict_writes_at_most_once:
  "writes (fst (Trainer_predict env cfg st epoch data_loader data)) =
     (case snd (Trainer_predict env cfg st epoch data_loader data) of
        Inl e \<Rightarrow> writes st
      | Inr f \<Rightarrow> writes st @
          [(predict_path cfg,
            json_dump env (result (snd (predict_loop env cfg data
               (st\<lparr>training := False, grad_enabled := False\<rparr>, predict_init) data_loader))))])"
proof -
  let ?sl = "(st\<lparr>training := False, grad_enabled := False\<rparr>, predict_init)"
  obtain st' l where run: "predict_loop env cfg data ?sl data_loader = (st', l)"
    by (cases "predict_loop env cfg data ?sl data_loader")
  with predict_loop_writes [of env cfg data ?sl data_loader] have "writes st' = writes st"
    by simp
  with run show ?thesis
    by (simp add: Trainer_predict_def predict_finish_def write_file_def Let_def
        split: sum.splits)
qed

text \<open>
  Claim C8 says that every Predict pass writes its output file exactly once, after all
  batches. In the run below the only batch raises in the network: the handler appends the
  empty record, the loop ends with \<^verbatim>\<open>label_result = []\<close>, and \<^verbatim>\<open>torch.cat\<close> at
  line 210 raises before line 229 is reached. Nothing is written and the file keeps its
  old content.
\<close>

theorem predict_all_batches_failed_writes_nothing:
  "snd (Trainer_predict demo_env demo_cfg
          ((Trainer_init 0)\<lparr>files := [''out.json'' \<mapsto> ''old'']\<rparr>) ''Final'' [batch_bad]
          [\<lparr>sentence = [''x'']\<rparr>]) = Inl RuntimeError
   \<and> writes (fst (Trainer_predict demo_env demo_cfg
          ((Trainer_init 0)\<lparr>files := [''out.json'' \<mapsto> ''old'']\<rparr>) ''Final'' [batch_bad]
          [\<lparr>sentence = [''x'']\<rparr>])) = []
   \<and> files (fst (Trainer_predict demo_env demo_cfg
          ((Trainer_init 0)\<lparr>files := [''out.json'' \<mapsto> ''old'']\<rparr>) ''Final'' [batch_bad]
          [\<lparr>sentence = [''x'']\<rparr>])) ''out.json'' = Some ''old''"
  by (simp add: demo_defs run_defs)

section \<open>\<^verbatim>\<open>Trainer.train\<close>\<close>

lemma train_batch_no_scheduler:
  assumes "scheduler st = None" and "train_batch env cfg st l b = (st', Inr l')"
  shows "l' = l \<and> scheduler st' = None"
  using assms
  by (auto simp: train_batch_def Let_def split: sum.splits)

lemma train_loop_no_scheduler:
  "scheduler st = None \<Longrightarrow> train_loop env cfg st l bs = (st', Inr l') \<Longrightarrow> l' = l"
proof (induction bs arbitrary: st)
  case Nil
  then show ?case by simp
next
  case (Cons b bs)
  obtain st1 r where b: "train_batch env cfg st l b = (st1, r)"
    by (cases "train_batch env cfg st l b")
  show ?case
  proof (cases r)
    case (Inl e)
    with b Cons.prems show ?thesis by simp
  next
    case (Inr l1)
    with b Cons.prems(1) have "l1 = l \<and> scheduler st1 = None"
      using train_batch_no_scheduler by blast
    with b Inr Cons.prems(2) Cons.IH [of st1] show ?thesis by simp
  qed
qed

lemma train_without_scheduler_raises:
  assumes "scheduler st = None"
  shows "\<exists>e. snd (Trainer_train env cfg st epoch data_loader) = Inl e"
proof -
  let ?st = "st\<lparr>training := True\<rparr>"
  obtain st1 r where run: "train_loop env cfg ?st train_init data_loader = (st1, r)"
    by (cases "train_loop env cfg ?st train_init data_loader")
  show ?thesis
  proof (cases r)
    case (Inl e)
    with run show ?thesis by (simp add: Trainer_train_def)
  next
    case (Inr l)
    from assms have "scheduler ?st = None" by simp
    with run Inr have "l = train_init"
      using train_loop_no_scheduler by blast
    with run Inr show ?thesis
      by (simp add: Trainer_train_def train_finish_def train_init_def)
  qed
qed

text \<open>
  Claim C3 says that a training batch whose network call raises is logged and skipped and
  that the epoch completes. In the run below the first batch raises and is logged with its
  content, and the loop goes on to the second batch; that batch succeeds, and line 82 then
  reads the attribute \<^verbatim>\<open>self.scheduler\<close>, which \<^verbatim>\<open>__init__\<close> no longer assigns:
  AttributeError leaves the epoch. With the failing batch alone, \<^verbatim>\<open>torch.cat\<close> at
  line 84 raises on the empty list.
\<close>

theorem train_crashes_after_skipped_batch:
  "snd (Trainer_train demo_env demo_cfg (Trainer_init 0) ''1'' [batch_bad, batch_b])
     = Inl AttributeError
   \<and> logged (fst (Trainer_train demo_env demo_cfg (Trainer_init 0) ''1'' [batch_bad, batch_b]))
     = [LogExn (Exception ''no input''), LogDataBatch batch_bad]
   \<and> snd (Trainer_train demo_env demo_cfg (Trainer_init 0) ''1'' [batch_bad])
     = Inl RuntimeError"
  by (simp add: demo_defs run_defs)

lemma upt_0_Suc: "[0..<Suc n] = 0 # map Suc [0..<n]"
  by (simp add: upt_conv_Cons map_Suc_upt del: upt_Suc)

lemma mask_cells:
  "length m = length xs \<Longrightarrow>
     map snd (filter fst (zip m xs)) = map ((!) xs) (filter ((!) m) [0..<length xs])"
proof (induction m xs rule: list_induct2)
  case Nil
  then show ?case by simp
next
  case (Cons a m x xs)
  have "map ((!) (x # xs)) (filter ((!) (c # m)) (map Suc [0..<length xs]))
          = map ((!) xs) (filter ((!) m) [0..<length xs])" for c
    by (simp add: filter_map o_def)
  with Cons show ?case
    by (simp add: upt_0_Suc del: upt_Suc)
qed

lemma mask_select_cells:
  "length m = length xs \<Longrightarrow>
     mask_select m xs = Inr (map ((!) xs) (filter ((!) m) [0..<length m]))"
  by (simp add: mask_select_def mask_cells)

text \<open>
  Claim C5. In a Train iteration whose network call succeeds (on tensors of consistent
  shape), the loss is the criterion applied to the outputs and the labels of exactly the
  cells whose mask is true; the parameter state is then taken through the backward pass,
  the clipping of the gradient norm to \<^verbatim>\<open>config.clip_grad_norm\<close>, the optimizer step
  and the clearing of the gradients, in this order (and last through the scheduler's
  step, when the trainer has a scheduler).
\<close>

theorem train_masked_loss_clip_step:
  assumes "model env (params st) (training st) (bert_inputs b) (grid_mask2d b) (dist_inputs b)
             (pieces2word b) (sent_length b) = Inr outputs0"
      and "length (grid_mask2d b) = length outputs0"
      and "length (grid_mask2d b) = length (grid_labels b)"
  shows "params (fst (train_batch env cfg st l b)) =
           (case scheduler st of None \<Rightarrow> (\<lambda>p. p) | Some sched_step \<Rightarrow> sched_step)
             (zero_grad env (optimizer_step env
               (clip_grad_norm_fn env
                  (backward env
                     (criterion env
                        (map ((!) outputs0)
                           (filter ((!) (grid_mask2d b)) [0..<length (grid_mask2d b)]))
                        (map ((!) (grid_labels b))
                           (filter ((!) (grid_mask2d b)) [0..<length (grid_mask2d b)])))
                     (params st))
                  (clip_grad_norm cfg))))"
  using assms
  by (simp add: train_batch_def mask_select_cells Let_def split: option.splits)

theorem train_masked_loss_clip_step_witness:
  "model demo_env (params (Trainer_init 0 :: (int, nat) state))
      (training (Trainer_init 0 :: (int, nat) state)) (bert_inputs batch_a) (grid_mask2d batch_a)
      (dist_inputs batch_a) (pieces2word batch_a) (sent_length batch_a)
     = Inr (replicate 8 [0, 1])
   \<and> length (grid_mask2d batch_a) = length (replicate 8 [0, 1 :: int])
   \<and> length (grid_mask2d batch_a) = length (grid_labels batch_a)
   \<and> map ((!) (grid_labels batch_a))
        (filter ((!) (grid_mask2d batch_a)) [0..<length (grid_mask2d batch_a)]) = [2, 0, 1, 0, 0]
   \<and> params (fst (train_batch demo_env demo_cfg (Trainer_init 0) train_init batch_a))
     = ((0 + 5) + 10) * 2 + 100"
proof -
  have h1: "model demo_env (params (Trainer_init 0 :: (int, nat) state))
      (training (Trainer_init 0 :: (int, nat) state)) (bert_inputs batch_a) (grid_mask2d batch_a)
      (dist_inputs batch_a) (pieces2word batch_a) (sent_length batch_a)
     = Inr (replicate 8 [0, 1])"
    by (simp add: demo_defs numeral_eq_Suc)
  have h2: "length (grid_mask2d batch_a) = length (replicate 8 [0, 1 :: int])"
    by (simp add: demo_defs)
  have h3: "length (grid_mask2d batch_a) = length (grid_labels batch_a)"
    by (simp add: demo_defs)
  have h4: "map ((!) (grid_labels batch_a))
        (filter ((!) (grid_mask2d batch_a)) [0..<length (grid_mask2d batch_a)]) = [2, 0, 1, 0, 0]"
    by (simp add: demo_defs upt_conv_Cons)
  from train_masked_loss_clip_step [OF h1 h2 h3, of demo_cfg train_init] h4
  have "params (fst (train_batch demo_env demo_cfg (Trainer_init 0) train_init batch_a))
     = ((0 + 5) + 10) * 2 + 100"
    by (simp add: demo_defs)
  with h1 h2 h3 h4 show ?thesis by blast
qed

section \<open>\<^verbatim>\<open>Trainer.eval\<close>\<close>

lemma eval_batch_state: "fst (eval_batch env st l b) = forward_call st"
  by (simp add: eval_batch_def Let_def split: sum.splits prod.splits)

lemma forward_call_calls:
  "(forward_call st)\<lparr>calls := calls (forward_call st)
       @ replicate k (Forward (training st) (grad_enabled st))\<rparr>
     = st\<lparr>calls := calls st @ replicate (Suc k) (Forward (training st) (grad_enabled st))\<rparr>"
  by (simp add: forward_call_def)

text \<open>
  The loop touches the state through its calls of the network only: one call per batch
  it reaches, each in the modes in force when the loop was entered.
\<close>

lemma eval_loop_calls:
  "\<exists>k \<le> length bs.
     fst (eval_loop env st l bs)
       = st\<lparr>calls := calls st @ replicate k (Forward (training st) (grad_enabled st))\<rparr>"
proof (induction bs arbitrary: st l)
  case Nil
  then show ?case by simp
next
  case (Cons b bs)
  obtain st1 r where eb: "eval_batch env st l b = (st1, r)"
    by (cases "eval_batch env st l b")
  with eval_batch_state [of env st l b] have st1: "st1 = forward_call st" by simp
  show ?case
  proof (cases r)
    case (Inl e)
    with eb st1 have "fst (eval_loop env st l (b # bs))
        = st\<lparr>calls := calls st @ replicate (Suc 0) (Forward (training st) (grad_enabled st))\<rparr>"
      by (simp add: forward_call_def)
    moreover have "Suc 0 \<le> length (b # bs)" by simp
    ultimately show ?thesis by blast
  next
    case (Inr l1)
    from Cons.IH [of "forward_call st" l1] obtain k where
      k: "k \<le> length bs"
         "fst (eval_loop env (forward_call st) l1 bs)
            = st\<lparr>calls := calls st @ replicate (Suc k) (Forward (training st) (grad_enabled st))\<rparr>"
      by (auto simp: forward_call_calls)
    from eb st1 Inr k(2) have "fst (eval_loop env st l (b # bs))
        = st\<lparr>calls := calls st @ replicate (Suc k) (Forward (training st) (grad_enabled st))\<rparr>"
      by simp
    moreover from k(1) have "Suc k \<le> length (b # bs)" by simp
    ultimately show ?thesis by blast
  qed
qed

lemma eval_loop_done_calls:
  "eval_loop env st l bs = (st', Inr l') \<Longrightarrow>
     st' = st\<lparr>calls := calls st
              @ replicate (length bs) (Forward (training st) (grad_enabled st))\<rparr>"
proof (induction bs arbitrary: st l)
  case Nil
  then show ?case by simp
next
  case (Cons b bs)
  obtain st1 r where eb: "eval_batch env st l b = (st1, r)"
    by (cases "eval_batch env st l b")
  with eval_batch_state [of env st l b] have st1: "st1 = forward_call st" by simp
  show ?case
  proof (cases r)
    case (Inl e)
    with eb Cons.prems show ?thesis by simp
  next
    case (Inr l1)
    with eb st1 Cons.prems have "eval_loop env (forward_call st) l1 bs = (st', Inr l')"
      by simp
    from Cons.IH [OF this] show ?thesis
      by (simp add: forward_call_calls)
  qed
qed

text \<open>
  Claim C6. An Eval pass leaves the parameter state of the network and the optimizer as
  it found it, on every batch sequence and whether it returns or raises. Its loop runs
  in the no-gradient scope of line 106: all it performs on the network and the optimizer
  are calls of the network, at most one per batch, each in eval mode with gradient
  tracking off; there is no backward pass and no optimizer step among them. The scope
  ends with the loop: the gradient mode is afterwards what it was before. The scheduler
  and the file system are left alone too.
\<close>

theorem eval_keeps_parameters:
  "params (fst (Trainer_eval env st epoch data_loader is_test)) = params st
   \<and> scheduler (fst (Trainer_eval env st epoch data_loader is_test)) = scheduler st
   \<and> files (fst (Trainer_eval env st epoch data_loader is_test)) = files st
   \<and> writes (fst (Trainer_eval env st epoch data_loader is_test)) = writes st
   \<and> grad_enabled (fst (Trainer_eval env st epoch data_loader is_test)) = grad_enabled st
   \<and> (\<exists>k \<le> length data_loader.
         calls (fst (Trainer_eval env st epoch data_loader is_test))
           = calls st @ replicate k (Forward False False))"
proof -
  let ?st0 = "st\<lparr>training := False, grad_enabled := False\<rparr>"
  let ?R = "Trainer_eval env st epoch data_loader is_test"
  obtain st' r where run: "eval_loop env ?st0 eval_init data_loader = (st', r)"
    by (cases "eval_loop env ?st0 eval_init data_loader")
  from eval_loop_calls [of data_loader env ?st0 eval_init] run obtain k where
    k: "k \<le> length data_loader"
       "st' = ?st0\<lparr>calls := calls st @ replicate k (Forward False False)\<rparr>"
    by auto
  have fields: "params (fst ?R) = params st \<and> scheduler (fst ?R) = scheduler st
      \<and> files (fst ?R) = files st \<and> writes (fst ?R) = writes st
      \<and> grad_enabled (fst ?R) = grad_enabled st
      \<and> calls (fst ?R) = calls st @ replicate k (Forward False False)"
    by (cases r) (simp_all add: Trainer_eval_def run k(2) eval_finish_def Let_def
        split: sum.splits)
  with k(1) show ?thesis by blast
qed

theorem eval_keeps_parameters_witness:
  "params (fst (Trainer_eval demo_env ((Trainer_init 7)\<lparr>scheduler := Some Suc\<rparr>) ''1''
      [batch_a, batch_b] False)) = 7
   \<and> calls (fst (Trainer_eval demo_env ((Trainer_init 7)\<lparr>scheduler := Some Suc\<rparr>) ''1''
      [batch_a, batch_b] False)) = [Forward False False, Forward False False]
   \<and> grad_enabled (fst (Trainer_eval demo_env ((Trainer_init 7)\<lparr>scheduler := Some Suc\<rparr>) ''1''
      [batch_a, batch_b] False))
   \<and> params (fst (Trainer_eval demo_env ((Trainer_init 7)\<lparr>scheduler := Some Suc\<rparr>) ''1''
      [batch_bad, batch_a] True)) = 7
   \<and> calls (fst (Trainer_eval demo_env ((Trainer_init 7)\<lparr>scheduler := Some Suc\<rparr>) ''1''
      [batch_bad, batch_a] True)) = [Forward False False]"
  using eval_keeps_parameters [of demo_env "(Trainer_init 7)\<lparr>scheduler := Some Suc\<rparr>" "''1''"
      "[batch_a, batch_b]" False]
    eval_keeps_parameters [of demo_env "(Trainer_init 7)\<lparr>scheduler := Some Suc\<rparr>" "''1''"
      "[batch_bad, batch_a]" True]
  by (simp add: demo_defs run_defs)

text \<open>
  A training iteration, in contrast, performs the backward pass and the optimizer step
  that an eval iteration lacks.
\<close>

lemma train_batch_performs_update:
  "calls (fst (train_batch demo_env demo_cfg (Trainer_init 0) train_init batch_a))
     = [Forward True True, Backward, ClipGradNorm, OptimizerStep, ZeroGrad]"
  by (simp add: demo_defs run_defs)

lemma eval_loop_append:
  "eval_loop env st l (pre @ post) =
     (case eval_loop env st l pre of
        (st', Inl e) \<Rightarrow> (st', Inl e)
      | (st', Inr l') \<Rightarrow> eval_loop env st' l' post)"
  by (induction pre arbitrary: st l) (simp_all split: sum.splits prod.splits)

lemma eval_batch_raises:
  assumes "model env (params st) (training st) (bert_inputs b) (grid_mask2d b) (dist_inputs b)
             (pieces2word b) (sent_length b) = Inl e
           \<or> (\<exists>outputs0.
                 model env (params st) (training st) (bert_inputs b) (grid_mask2d b)
                   (dist_inputs b) (pieces2word b) (sent_length b) = Inr outputs0
               \<and> utils_decode env (map (argmax env) outputs0) (entity_text b) (sent_length b)
                   = Inl e)"
  shows "eval_batch env st l b = (forward_call st, Inl e)"
  using assms by (auto simp: eval_batch_def)

text \<open>
  Claim C4 says that an evaluation batch on which the network or the decoder raises is
  logged and skipped. In the run below the first batch raises in the network: the
  exception leaves \<^verbatim>\<open>eval\<close>, nothing is logged, and the second batch is never reached.
\<close>

theorem eval_does_not_skip:
  "snd (Trainer_eval demo_env (Trainer_init 0) ''1'' [batch_bad, batch_b] False)
     = Inl (Exception ''no input'')
   \<and> logged (fst (Trainer_eval demo_env (Trainer_init 0) ''1'' [batch_bad, batch_b] False)) = []"
  by (simp add: demo_defs run_defs)

text \<open>
  Claim C4, amended. \<^verbatim>\<open>Trainer.eval\<close> has no handler: when the batches \<open>pre\<close> were
  evaluated and the network or the decoder raises \<open>e\<close> on the next batch, \<open>e\<close> leaves
  \<^verbatim>\<open>eval\<close> at that batch; nothing is logged, no later batch is evaluated (the network
  was called once for each batch of \<open>pre\<close> and once for the failing batch), and the
  trainer is as it was but for the network's eval mode.
\<close>

theorem eval_propagates_first_exception:
  assumes "eval_loop env (st\<lparr>training := False, grad_enabled := False\<rparr>) eval_init pre
             = (st1, Inr l)"
      and "model env (params st) False (bert_inputs b) (grid_mask2d b) (dist_inputs b)
             (pieces2word b) (sent_length b) = Inl e
           \<or> (\<exists>outputs0.
                 model env (params st) False (bert_inputs b) (grid_mask2d b)
                   (dist_inputs b) (pieces2word b) (sent_length b) = Inr outputs0
               \<and> utils_decode env (map (argmax env) outputs0) (entity_text b) (sent_length b)
                   = Inl e)"
  shows "Trainer_eval env st epoch (pre @ b # post) is_test =
           (st\<lparr>training := False,
               calls := calls st @ replicate (Suc (length pre)) (Forward False False)\<rparr>, Inl e)"
proof -
  let ?st0 = "st\<lparr>training := False, grad_enabled := False\<rparr>"
  from eval_loop_done_calls [OF assms(1)]
  have st1: "st1 = ?st0\<lparr>calls := calls st @ replicate (length pre) (Forward False False)\<rparr>"
    by simp
  with assms(2) have "eval_batch env st1 l b = (forward_call st1, Inl e)"
    by (intro eval_batch_raises) simp
  with assms(1) have "eval_loop env ?st0 eval_init (pre @ b # post) = (forward_call st1, Inl e)"
    by (simp add: eval_loop_append)
  then show ?thesis
    by (simp add: Trainer_eval_def st1 forward_call_def replicate_append_same)
qed

theorem eval_propagates_first_exception_witness:
  "snd (eval_loop demo_env ((Trainer_init 0)\<lparr>training := False, grad_enabled := False\<rparr>)
          eval_init [batch_a])
     = Inr \<lparr>pred_result = [[2, 2, 2, 2, 2]], label_result = [[2, 0, 1, 0, 0]],
           total_ent_r = 2, total_ent_p = 2, total_ent_c = 0\<rparr>
   \<and> model demo_env (params (Trainer_init 0 :: (int, nat) state)) False (bert_inputs batch_bad)
       (grid_mask2d batch_bad) (dist_inputs batch_bad) (pieces2word batch_bad)
       (sent_length batch_bad) = Inl (Exception ''no input'')
   \<and> Trainer_eval demo_env (Trainer_init 0) ''1'' ([batch_a] @ batch_bad # [batch_b]) False
     = ((Trainer_init 0)\<lparr>training := False, calls := [Forward False False, Forward False False]\<rparr>,
        Inl (Exception ''no input''))"
proof -
  let ?st0 = "(Trainer_init 0 :: (int, nat) state)\<lparr>training := False, grad_enabled := False\<rparr>"
  have h0: "snd (eval_loop demo_env ?st0 eval_init [batch_a])
     = Inr \<lparr>pred_result = [[2, 2, 2, 2, 2]], label_result = [[2, 0, 1, 0, 0]],
           total_ent_r = 2, total_ent_p = 2, total_ent_c = 0\<rparr>"
    by (simp add: demo_defs run_defs)
  then have h1: "eval_loop demo_env ?st0 eval_init [batch_a]
     = (fst (eval_loop demo_env ?st0 eval_init [batch_a]),
        Inr \<lparr>pred_result = [[2, 2, 2, 2, 2]], label_result = [[2, 0, 1, 0, 0]],
           total_ent_r = 2, total_ent_p = 2, total_ent_c = 0\<rparr>)"
    by (simp add: prod_eq_iff)
  have h2: "model demo_env (params (Trainer_init 0 :: (int, nat) state)) False
       (bert_inputs batch_bad) (grid_mask2d batch_bad) (dist_inputs batch_bad)
       (pieces2word batch_bad) (sent_length batch_bad) = Inl (Exception ''no input'')"
    by (simp add: demo_defs)
  from eval_propagates_first_exception [OF h1 disjI1 [OF h2], of "''1''" "[batch_b]" False]
  have "Trainer_eval demo_env (Trainer_init 0) ''1'' ([batch_a] @ batch_bad # [batch_b]) False
     = ((Trainer_init 0)\<lparr>training := False, calls := [Forward False False, Forward False False]\<rparr>,
        Inl (Exception ''no input''))"
    by (simp add: Trainer_init_def)
  with h0 h2 show ?thesis by blast
qed

section \<open>GridCodec: the round trip\<close>

lemma mark_cell: "mark g i j v a b = (if a = i \<and> b = j then v else g a b)"
  by (simp add: mark_def)

lemma mark_chain_cell:
  "mark_chain g p a b = (if (a, b) \<in> set (zip p (tl p)) then continuation else g a b)"
proof (induction g p rule: mark_chain.induct)
  case (1 g x y rest)
  have "mark_chain g (x # y # rest) a b = mark_chain (mark g x y continuation) (y # rest) a b"
    by simp
  also have "\<dots> = (if (a, b) \<in> set (zip (y # rest) (tl (y # rest))) then continuation
                     else mark g x y continuation a b)"
    by (rule "1.IH")
  also have "\<dots> = (if (a, b) \<in> set (zip (x # y # rest) (tl (x # y # rest))) then continuation
                     else g a b)"
    by (auto simp: mark_cell)
  finally show ?case .
qed simp_all

lemma encode_span_cell:
  assumes "p \<noteq> []"
  shows "encode_span g (p, t) a b =
           (if a = last p \<and> b = hd p then t
            else if (a, b) \<in> set (zip p (tl p)) then continuation else g a b)"
proof -
  from assms obtain x rest where p: "p = x # rest" by (cases p) auto
  show ?thesis
    unfolding p by (simp add: encode_span_def mark_cell mark_chain_cell)
qed

lemma zip_tl_left: "(a, b) \<in> set (zip p (tl p)) \<Longrightarrow> a \<in> set p"
  by (rule set_zip_leftD)

lemma zip_tl_right: "(a, b) \<in> set (zip p (tl p)) \<Longrightarrow> b \<in> set (tl p)"
  by (rule set_zip_rightD)

lemma encode_span_untouched:
  assumes "a \<notin> set (fst s)"
  shows "encode_span g s a b = g a b"
proof (cases "fst s")
  case Nil
  then show ?thesis by (simp add: encode_span_def)
next
  case (Cons x rest)
  then have ne: "fst s \<noteq> []" by simp
  from assms have "a \<noteq> last (fst s)"
    using ne last_in_set by metis
  moreover from assms have "(a, b) \<notin> set (zip (fst s) (tl (fst s)))"
    using zip_tl_left by metis
  ultimately show ?thesis
    using encode_span_cell [OF ne, of g "snd s" a b] by simp
qed

lemma encode_cell_out:
  "a \<notin> set (concat (map fst ss)) \<Longrightarrow> foldl encode_span g ss a b = g a b"
  by (induction ss arbitrary: g) (simp_all add: encode_span_untouched)

lemma encode_cell_in:
  assumes "distinct (concat (map fst ss))" and "(p, t) \<in> set ss" and "a \<in> set p"
  shows "foldl encode_span g ss a b =
           (if a = last p \<and> b = hd p then t
            else if (a, b) \<in> set (zip p (tl p)) then continuation else g a b)"
  using assms
proof (induction ss arbitrary: g)
  case Nil
  then show ?case by simp
next
  case (Cons s ss)
  from Cons.prems(1) have d: "distinct (fst s)" "distinct (concat (map fst ss))"
    "set (fst s) \<inter> set (concat (map fst ss)) = {}"
    by simp_all
  show ?case
  proof (cases "(p, t) \<in> set ss")
    case True
    with Cons.prems(3) have "a \<in> set (concat (map fst ss))"
      by force
    with d(3) have "a \<notin> set (fst s)" by blast
    then have "encode_span g s a b = g a b"
      by (rule encode_span_untouched)
    with Cons.IH [OF d(2) True Cons.prems(3), of "encode_span g s"] show ?thesis
      by simp
  next
    case False
    with Cons.prems(2) have s: "s = (p, t)" by simp
    with Cons.prems(3) d(3) have "a \<notin> set (concat (map fst ss))"
      by auto
    then have "foldl encode_span (encode_span g s) ss a b = encode_span g s a b"
      by (rule encode_cell_out)
    moreover from Cons.prems(3) have "p \<noteq> []" by auto
    ultimately show ?thesis
      using encode_span_cell [of p g t a b] s by simp
  qed
qed

lemma adj_less:
  fixes p :: "nat list"
  assumes "sorted_wrt (<) p" and "(a, b) \<in> set (zip p (tl p))"
  shows "a < b"
proof -
  from assms(2) obtain n where n: "p ! n = a" "tl p ! n = b" "n < length p" "n < length (tl p)"
    by (auto simp: in_set_zip)
  then have "Suc n < length p" by simp
  with n(2) have "p ! Suc n = b" by (simp add: nth_tl)
  with assms(1) n(1) \<open>Suc n < length p\<close> show ?thesis
    using sorted_wrt_nth_less [of "(<)" p n "Suc n"] by simp
qed

lemma hd_le_last:
  fixes p :: "nat list"
  assumes "sorted_wrt (<) p" and "p \<noteq> []"
  shows "hd p \<le> last p"
proof (cases "length p = 1")
  case True
  then obtain x where "p = [x]" by (cases p) auto
  then show ?thesis by simp
next
  case False
  with assms(2) have "0 < length p - 1" "length p - 1 < length p"
    by (cases p; simp)+
  with assms(1) have "p ! 0 < p ! (length p - 1)"
    by (rule_tac sorted_wrt_nth_less)
  with assms(2) show ?thesis
    by (simp add: hd_conv_nth last_conv_nth)
qed

lemma closure_not_adj:
  fixes p :: "nat list"
  assumes "sorted_wrt (<) p" and "p \<noteq> []"
  shows "(last p, hd p) \<notin> set (zip p (tl p))"
  using adj_less [OF assms(1), of "last p" "hd p"] hd_le_last [OF assms] by auto

lemma wf_span:
  assumes "well_formed L ss" and "(p, t) \<in> set ss"
  shows "p \<noteq> []" and "sorted_wrt (<) p" and "distinct p" and "\<And>i. i \<in> set p \<Longrightarrow> i < L"
    and "t \<noteq> 0" and "t \<noteq> continuation"
proof -
  from assms have *: "p \<noteq> [] \<and> sorted_wrt (<) p \<and> list_all (\<lambda>i. i < L) p
      \<and> t \<noteq> 0 \<and> t \<noteq> continuation"
    by (auto simp: well_formed_def list_all_iff)
  then show "p \<noteq> []" "sorted_wrt (<) p" "t \<noteq> 0" "t \<noteq> continuation" by simp_all
  from * show "distinct p" by (simp add: strict_sorted_iff)
  from * show "\<And>i. i \<in> set p \<Longrightarrow> i < L" by (simp add: list_all_iff)
qed

lemma wf_distinct: "well_formed L ss \<Longrightarrow> distinct (concat (map fst ss))"
  by (simp add: well_formed_def)

lemma span_unique:
  assumes "distinct (concat (map fst ss))" and "(p, t) \<in> set ss" and "(p', t') \<in> set ss"
    and "a \<in> set p" and "a \<in> set p'"
  shows "p' = p \<and> t' = t"
  using assms
proof (induction ss)
  case Nil
  then show ?case by simp
next
  case (Cons s ss)
  from Cons.prems(1) have d: "distinct (concat (map fst ss))"
    "set (fst s) \<inter> set (concat (map fst ss)) = {}"
    by simp_all
  have out: "a \<in> set (concat (map fst ss))" if "(q, u) \<in> set ss" "a \<in> set q" for q u
    using that by force
  show ?case
  proof (cases "(p, t) \<in> set ss")
    case True
    note pin = this
    show ?thesis
    proof (cases "(p', t') \<in> set ss")
      case True
      with Cons.IH [OF d(1) pin] Cons.prems(4,5) show ?thesis by simp
    next
      case False
      with Cons.prems(3) have "s = (p', t')" by simp
      with Cons.prems(5) d(2) out [OF pin Cons.prems(4)] show ?thesis by auto
    qed
  next
    case False
    with Cons.prems(2) have s: "s = (p, t)" by simp
    show ?thesis
    proof (cases "(p', t') \<in> set ss")
      case True
      with s Cons.prems(4) d(2) out [OF True Cons.prems(5)] show ?thesis by auto
    next
      case False
      with Cons.prems(3) s show ?thesis by simp
    qed
  qed
qed

lemma grid_cell:
  assumes "well_formed L ss" and "(p, t) \<in> set ss" and "a \<in> set p"
  shows "encode sent ss a b =
           (if a = last p \<and> b = hd p then t
            else if (a, b) \<in> set (zip p (tl p)) then continuation else 0)"
  unfolding encode_def
  by (rule encode_cell_in [OF wf_distinct [OF assms(1)] assms(2,3)])

lemma grid_zero:
  "a \<notin> set (concat (map fst ss)) \<Longrightarrow> encode sent ss a b = 0"
  unfolding encode_def by (rule encode_cell_out)

lemma cont_in_span:
  assumes "well_formed L ss" and "(p, t) \<in> set ss" and "a \<in> set p"
  shows "encode sent ss a b = continuation \<longleftrightarrow> (a, b) \<in> set (zip p (tl p))"
proof -
  note w = wf_span [OF assms(1,2)]
  have "\<not> (a = last p \<and> b = hd p)" if "(a, b) \<in> set (zip p (tl p))"
    using that closure_not_adj [OF w(2) w(1)] by auto
  with w(6) show ?thesis
    by (auto simp: grid_cell [OF assms] continuation_def)
qed

lemma cont_edge:
  assumes "well_formed L ss" and "encode sent ss a b = continuation"
  shows "\<exists>p t. (p, t) \<in> set ss \<and> (a, b) \<in> set (zip p (tl p))"
proof (cases "a \<in> set (concat (map fst ss))")
  case True
  then obtain p t where pt: "(p, t) \<in> set ss" "a \<in> set p" by force
  with cont_in_span [OF assms(1) pt] assms(2) show ?thesis by blast
next
  case False
  then have "encode sent ss a b = 0" by (rule grid_zero)
  with assms(2) show ?thesis by (simp add: continuation_def)
qed

lemma adj_nth:
  assumes "distinct p" and "k < length p"
  shows "(p ! k, b) \<in> set (zip p (tl p)) \<longleftrightarrow> Suc k < length p \<and> b = p ! Suc k"
proof
  assume "(p ! k, b) \<in> set (zip p (tl p))"
  then obtain n where n: "p ! n = p ! k" "tl p ! n = b" "n < length p" "n < length (tl p)"
    by (auto simp: in_set_zip)
  with assms have "n = k" by (simp add: nth_eq_iff_index_eq)
  with n show "Suc k < length p \<and> b = p ! Suc k" by (auto simp: nth_tl)
next
  assume "Suc k < length p \<and> b = p ! Suc k"
  then have a: "Suc k < length p" "b = p ! Suc k" by simp_all
  from a(1) have "k < length (zip p (tl p))" by simp
  moreover from a have "zip p (tl p) ! k = (p ! k, b)" by (simp add: nth_tl)
  ultimately show "(p ! k, b) \<in> set (zip p (tl p))"
    by (metis nth_mem)
qed

lemma nth_notin_take:
  assumes "distinct p" and "k < length p"
  shows "p ! k \<notin> set (take k p)"
proof
  assume "p ! k \<in> set (take k p)"
  then obtain n where "n < length (take k p)" "take k p ! n = p ! k"
    by (auto simp: in_set_conv_nth)
  then have "n < k" "p ! n = p ! k" by simp_all
  with assms show False by (simp add: nth_eq_iff_index_eq)
qed

lemma filter_upt_eq: "filter (\<lambda>j. j = x) [0..<L] = (if x < L then [x] else [])"
  by (induction L) auto

lemma successors_prefix:
  assumes "well_formed L ss" and "(p, t) \<in> set ss" and "0 < k" and "k \<le> length p"
  shows "successors (encode sent ss) L (take k p) = (if k < length p then [p ! k] else [])"
proof -
  note w = wf_span [OF assms(1,2)]
  from assms(3,4) have k1: "k - 1 < length p" by simp
  from assms(3,4) have "take k p \<noteq> []" by auto
  then have "last (take k p) = take k p ! (length (take k p) - 1)"
    by (rule last_conv_nth)
  with assms(3,4) have last: "last (take k p) = p ! (k - 1)"
    by (simp add: min_absorb2)
  have mem: "p ! (k - 1) \<in> set p" using k1 by simp
  have "(encode sent ss (p ! (k - 1)) j = continuation \<and> j \<notin> set (take k p))
          \<longleftrightarrow> (k < length p \<and> j = p ! k)" for j
  proof -
    have "encode sent ss (p ! (k - 1)) j = continuation
            \<longleftrightarrow> Suc (k - 1) < length p \<and> j = p ! Suc (k - 1)"
      using cont_in_span [OF assms(1,2) mem] adj_nth [OF w(3) k1] by simp
    with assms(3) have "encode sent ss (p ! (k - 1)) j = continuation
            \<longleftrightarrow> k < length p \<and> j = p ! k"
      by simp
    with nth_notin_take [OF w(3)] show ?thesis by auto
  qed
  then have "successors (encode sent ss) L (take k p)
               = filter (\<lambda>j. k < length p \<and> j = p ! k) [0..<L]"
    by (simp add: successors_def last)
  also have "\<dots> = (if k < length p then [p ! k] else [])"
    using w(4) by (auto simp: filter_upt_eq)
  finally show ?thesis .
qed

lemma paths_prefix:
  assumes "well_formed L ss" and "(p, t) \<in> set ss" and "0 < k" and "k \<le> length p"
  shows "set (paths_from (encode sent ss) L n (take k p))
           = {take m p | m. k \<le> m \<and> m \<le> length p \<and> m \<le> k + n}"
  using assms(3,4)
proof (induction n arbitrary: k)
  case 0
  then show ?case by auto
next
  case (Suc n)
  show ?case
  proof (cases "k < length p")
    case True
    then have app: "take k p @ [p ! k] = take (Suc k) p"
      by (simp add: take_Suc_conv_app_nth)
    from True have "set (paths_from (encode sent ss) L n (take (Suc k) p))
             = {take m p | m. Suc k \<le> m \<and> m \<le> length p \<and> m \<le> Suc k + n}"
      by (intro Suc.IH) simp_all
    with True have "set (paths_from (encode sent ss) L (Suc n) (take k p))
             = insert (take k p) {take m p | m. Suc k \<le> m \<and> m \<le> length p \<and> m \<le> Suc k + n}"
      by (simp add: successors_prefix [OF assms(1,2) Suc.prems] app)
    also have "\<dots> = {take m p | m. k \<le> m \<and> m \<le> length p \<and> m \<le> k + Suc n}"
    proof (rule set_eqI)
      fix q
      show "q \<in> insert (take k p) {take m p | m. Suc k \<le> m \<and> m \<le> length p \<and> m \<le> Suc k + n}
              \<longleftrightarrow> q \<in> {take m p | m. k \<le> m \<and> m \<le> length p \<and> m \<le> k + Suc n}"
      proof
        assume "q \<in> insert (take k p)
                  {take m p | m. Suc k \<le> m \<and> m \<le> length p \<and> m \<le> Suc k + n}"
        then consider "q = take k p"
          | m where "q = take m p" "Suc k \<le> m" "m \<le> length p" "m \<le> Suc k + n"
          by auto
        then show "q \<in> {take m p | m. k \<le> m \<and> m \<le> length p \<and> m \<le> k + Suc n}"
        proof cases
          case 1
          with Suc.prems show ?thesis by auto
        next
          case 2
          then have "k \<le> m \<and> m \<le> length p \<and> m \<le> k + Suc n" by simp
          with 2(1) show ?thesis by blast
        qed
      next
        assume "q \<in> {take m p | m. k \<le> m \<and> m \<le> length p \<and> m \<le> k + Suc n}"
        then obtain m where m: "q = take m p" "k \<le> m" "m \<le> length p" "m \<le> k + Suc n"
          by auto
        show "q \<in> insert (take k p)
                {take m p | m. Suc k \<le> m \<and> m \<le> length p \<and> m \<le> Suc k + n}"
        proof (cases "m = k")
          case True
          with m(1) show ?thesis by simp
        next
          case False
          with m have "Suc k \<le> m \<and> m \<le> length p \<and> m \<le> Suc k + n" by simp
          with m(1) show ?thesis by blast
        qed
      qed
    qed
    finally show ?thesis .
  next
    case False
    with Suc.prems have k: "k = length p" by simp
    then have "set (paths_from (encode sent ss) L (Suc n) (take k p)) = {p}"
      using successors_prefix [OF assms(1,2) Suc.prems, of sent] by simp
    also have "{p} = {take m p | m. k \<le> m \<and> m \<le> length p \<and> m \<le> k + Suc n}"
    proof (rule set_eqI)
      fix q
      show "q \<in> {p} \<longleftrightarrow> q \<in> {take m p | m. k \<le> m \<and> m \<le> length p \<and> m \<le> k + Suc n}"
      proof
        assume "q \<in> {p}"
        then have "q = take k p \<and> k \<le> k \<and> k \<le> length p \<and> k \<le> k + Suc n"
          using k by simp
        then have "\<exists>m. q = take m p \<and> k \<le> m \<and> m \<le> length p \<and> m \<le> k + Suc n"
          by (rule exI)
        then show "q \<in> {take m p | m. k \<le> m \<and> m \<le> length p \<and> m \<le> k + Suc n}"
          by simp
      next
        assume "q \<in> {take m p | m. k \<le> m \<and> m \<le> length p \<and> m \<le> k + Suc n}"
        then obtain m where "q = take m p" "k \<le> m" "m \<le> length p" by auto
        with k show "q \<in> {p}" by simp
      qed
    qed
    finally show ?thesis .
  qed
qed

lemma paths_outside:
  assumes "s \<notin> set (concat (map fst ss))"
  shows "paths_from (encode sent ss) L n [s] = [[s]]"
proof -
  have "successors (encode sent ss) L [s] = []"
    by (simp add: successors_def grid_zero [OF assms] continuation_def)
  then show ?thesis by (cases n) simp_all
qed

lemma start_iff:
  "s \<in> set (span_starts g L) \<longleftrightarrow> s < L \<and> \<not> (\<exists>j < L. g j s = continuation)"
  by (auto simp: span_starts_def list_ex_iff)

lemma head_is_start:
  assumes "well_formed L ss" and "(p, t) \<in> set ss"
  shows "hd p \<in> set (span_starts (encode sent ss) L)"
proof -
  note w = wf_span [OF assms]
  from w(1) have hd_in: "hd p \<in> set p" by simp
  have "encode sent ss j (hd p) \<noteq> continuation" for j
  proof
    assume "encode sent ss j (hd p) = continuation"
    from cont_edge [OF assms(1) this] obtain p' t' where
      p': "(p', t') \<in> set ss" "(j, hd p) \<in> set (zip p' (tl p'))"
      by blast
    from p'(2) have "hd p \<in> set (tl p')" by (rule zip_tl_right)
    then have in': "hd p \<in> set p'" by (cases p') auto
    from span_unique [OF wf_distinct [OF assms(1)] assms(2) p'(1) hd_in in']
    have "p' = p" by simp
    with \<open>hd p \<in> set (tl p')\<close> have "hd p \<in> set (tl p)" by simp
    with w(1,3) show False by (cases p) auto
  qed
  with w(4) [OF hd_in] show ?thesis by (simp add: start_iff)
qed

lemma start_in_span_is_head:
  assumes "well_formed L ss" and "(p, t) \<in> set ss" and "s \<in> set p"
    and "s \<in> set (span_starts (encode sent ss) L)"
  shows "s = hd p"
proof (rule ccontr)
  assume "s \<noteq> hd p"
  note w = wf_span [OF assms(1,2)]
  from assms(3) obtain n where n: "n < length p" "p ! n = s"
    by (auto simp: in_set_conv_nth)
  have "n \<noteq> 0"
  proof
    assume "n = 0"
    with n(2) w(1) have "s = hd p" by (simp add: hd_conv_nth)
    with \<open>s \<noteq> hd p\<close> show False by simp
  qed
  then obtain k where k: "n = Suc k" by (cases n) auto
  with n have "k < length p" by simp
  from adj_nth [OF w(3) this, of s] n k have "(p ! k, s) \<in> set (zip p (tl p))" by simp
  moreover from \<open>k < length p\<close> have mem: "p ! k \<in> set p" by simp
  ultimately have "encode sent ss (p ! k) s = continuation"
    using cont_in_span [OF assms(1,2)] by simp
  moreover from w(4) [OF mem] have "p ! k < L" .
  ultimately show False using assms(4) by (auto simp: start_iff)
qed

lemma span_length:
  assumes "distinct p" and "\<And>i. i \<in> set p \<Longrightarrow> i < L"
  shows "length p \<le> L"
proof -
  from assms(2) have "set p \<subseteq> {..<L}" by auto
  then have "card (set p) \<le> card {..<L}" by (intro card_mono) simp_all
  with assms(1) show ?thesis by (simp add: distinct_card)
qed

lemma candidates_iff:
  "e \<in> set (candidates g L) \<longleftrightarrow>
     (\<exists>s q. s \<in> set (span_starts g L) \<and> q \<in> set (paths_from g L L [s]) \<and> closes g q
            \<and> e = (q, g (last q) (hd q)))"
  by (auto simp: candidates_def)

lemma span_is_candidate:
  assumes "well_formed L ss" and "(p, t) \<in> set ss"
  shows "(p, t) \<in> set (candidates (encode sent ss) L)"
proof -
  note w = wf_span [OF assms]
  from w(1) have one: "take (Suc 0) p = [hd p]" by (cases p) simp_all
  from w(1) have len: "0 < Suc 0" "Suc 0 \<le> length p" by (cases p; simp)+
  from span_length [OF w(3,4)] have "length p \<le> Suc 0 + L" by simp
  with len(2) have "p = take (length p) p \<and> Suc 0 \<le> length p \<and> length p \<le> length p
      \<and> length p \<le> Suc 0 + L"
    by simp
  then have "\<exists>m. p = take m p \<and> Suc 0 \<le> m \<and> m \<le> length p \<and> m \<le> Suc 0 + L"
    by (rule exI)
  then have "p \<in> {take m p | m. Suc 0 \<le> m \<and> m \<le> length p \<and> m \<le> Suc 0 + L}"
    by simp
  then have "p \<in> set (paths_from (encode sent ss) L L (take (Suc 0) p))"
    by (simp only: paths_prefix [OF assms len, of sent L])
  then have path: "p \<in> set (paths_from (encode sent ss) L L [hd p])"
    by (simp only: one)
  from w(1) have "last p \<in> set p" by simp
  from grid_cell [OF assms this, of sent "hd p"]
  have cell: "encode sent ss (last p) (hd p) = t" by simp
  with w(5,6) have "closes (encode sent ss) p" by (simp add: closes_def)
  with head_is_start [OF assms] path cell show ?thesis
    unfolding candidates_iff by blast
qed

lemma candidate_is_span:
  assumes "well_formed L ss" and "e \<in> set (candidates (encode sent ss) L)"
  shows "e \<in> set ss"
proof -
  let ?g = "encode sent ss"
  from assms(2) obtain s q where
    sq: "s \<in> set (span_starts ?g L)" "q \<in> set (paths_from ?g L L [s])" "closes ?g q"
        "e = (q, ?g (last q) (hd q))"
    unfolding candidates_iff by blast
  show ?thesis
  proof (cases "s \<in> set (concat (map fst ss))")
    case False
    with sq(2) have "q = [s]" by (simp add: paths_outside)
    with sq(3) grid_zero [OF False, of sent s] show ?thesis by (simp add: closes_def)
  next
    case True
    then obtain p t where pt: "(p, t) \<in> set ss" "s \<in> set p" by force
    note w = wf_span [OF assms(1) pt(1)]
    from start_in_span_is_head [OF assms(1) pt sq(1)] have s: "s = hd p" .
    from w(1) have one: "take (Suc 0) p = [hd p]" by (cases p) simp_all
    from w(1) have len: "0 < Suc 0" "Suc 0 \<le> length p" by (cases p; simp)+
    from sq(2) s have "q \<in> set (paths_from ?g L L (take (Suc 0) p))" by (simp only: one)
    then have "q \<in> {take m p | m. Suc 0 \<le> m \<and> m \<le> length p \<and> m \<le> Suc 0 + L}"
      by (simp only: paths_prefix [OF assms(1) pt(1) len, of sent L])
    then obtain m where m: "q = take m p" "1 \<le> m" "m \<le> length p" by auto
    then have "take m p \<noteq> []" using w(1) by auto
    then have "last q = take m p ! (length (take m p) - 1)"
      unfolding m(1) by (rule last_conv_nth)
    with m have last: "last q = p ! (m - 1)" by (simp add: min_absorb2)
    from m w(1) have hd: "hd q = hd p" by (cases p; cases m) simp_all
    from m have m1: "m - 1 < length p" by simp
    then have mem: "p ! (m - 1) \<in> set p" by simp
    from sq(3) have "?g (p ! (m - 1)) (hd p) \<noteq> 0 \<and> ?g (p ! (m - 1)) (hd p) \<noteq> continuation"
      by (simp add: closes_def last hd)
    with grid_cell [OF assms(1) pt(1) mem, of sent "hd p"]
    have cl: "p ! (m - 1) = last p" "?g (p ! (m - 1)) (hd p) = t"
      by (auto split: if_splits)
    from w(1) have "last p = p ! (length p - 1)" by (rule last_conv_nth)
    with cl(1) w(3) m1 w(1) have "m - 1 = length p - 1"
      by (simp add: nth_eq_iff_index_eq)
    with m have "m = length p" by simp
    with m(1) cl(2) sq(4) last hd pt(1) show ?thesis by simp
  qed
qed

lemma candidates_roundtrip:
  assumes "well_formed L ss"
  shows "set (candidates (encode sent ss) L) = set ss"
proof (rule set_eqI)
  fix e :: span
  obtain p t where e: "e = (p, t)" by (cases e)
  show "e \<in> set (candidates (encode sent ss) L) \<longleftrightarrow> e \<in> set ss"
    using candidate_is_span [OF assms, of e sent] span_is_candidate [OF assms, of p t sent]
    unfolding e by blast
qed

lemma dedup_set:
  assumes "inj_on (\<lambda>e. set (fst e)) (set kept \<union> set es)"
  shows "set (foldl dedup_step kept es) = set kept \<union> set es"
  using assms
proof (induction es arbitrary: kept)
  case Nil
  then show ?case by simp
next
  case (Cons e es)
  show ?case
  proof (cases "list_ex (\<lambda>k. set (fst k) = set (fst e)) kept")
    case True
    then obtain k where k: "k \<in> set kept" "set (fst k) = set (fst e)"
      by (auto simp: list_ex_iff)
    with Cons.prems have "k = e" by (auto dest: inj_onD)
    with k(1) have "e \<in> set kept" by simp
    moreover from Cons.prems have "inj_on (\<lambda>e. set (fst e)) (set kept \<union> set es)"
      by (rule inj_on_subset) auto
    ultimately show ?thesis
      using True Cons.IH [of kept] by (auto simp: dedup_step_def)
  next
    case False
    from Cons.prems have "inj_on (\<lambda>e. set (fst e)) (set (kept @ [e]) \<union> set es)"
      by (rule inj_on_subset) auto
    with False Cons.IH [of "kept @ [e]"] show ?thesis
      by (auto simp: dedup_step_def)
  qed
qed

lemma dedup_distinct:
  "distinct (map (\<lambda>e. set (fst e)) kept) \<Longrightarrow>
     distinct (map (\<lambda>e. set (fst e)) (foldl dedup_step kept es))"
proof (induction es arbitrary: kept)
  case Nil
  then show ?case by simp
next
  case (Cons e es)
  have "distinct (map (\<lambda>e. set (fst e)) (dedup_step kept e))"
    using Cons.prems by (auto simp: dedup_step_def list_ex_iff)
  then show ?case using Cons.IH by simp
qed

lemma token_set_inj:
  assumes "well_formed L ss"
  shows "inj_on (\<lambda>e. set (fst e)) (set ss)"
proof (rule inj_onI)
  fix x y :: span
  assume xy: "x \<in> set ss" "y \<in> set ss" "set (fst x) = set (fst y)"
  obtain p t where x: "x = (p, t)" by (cases x)
  obtain p' t' where y: "y = (p', t')" by (cases y)
  from wf_span(1) [OF assms] xy(1) x have "hd p \<in> set p" by auto
  with xy(3) x y have "hd p \<in> set p'" by simp
  from span_unique [OF wf_distinct [OF assms] _ _ \<open>hd p \<in> set p\<close> this, of t t'] xy(1,2) x y
  show "x = y" by simp
qed

text \<open>
  Claim C2. For every sentence and every well-formed set of entity spans (non-empty
  ascending token indices within the sentence, no token in two spans; discontinuous spans
  and a span inside the gap of another are allowed), decoding the label grid that encoding
  the spans produces returns exactly these spans: the same token indices (hence the same
  token-index sets) with the same type ids, each once.
\<close>

theorem encode_decode_roundtrip:
  assumes "well_formed (length sent) spans"
  shows "set (decode_sentence (encode sent spans) (length sent)) = set spans
         \<and> distinct (map (\<lambda>e. set (fst e)) (decode_sentence (encode sent spans) (length sent)))"
proof -
  let ?c = "candidates (encode sent spans) (length sent)"
  have dec: "decode_sentence (encode sent spans) (length sent) = foldl dedup_step [] ?c"
    by (simp add: decode_sentence_def dedup_entities_def)
  from candidates_roundtrip [OF assms] have c: "set ?c = set spans" .
  with token_set_inj [OF assms] have "inj_on (\<lambda>e. set (fst e)) (set [] \<union> set ?c)"
    by simp
  from dedup_set [OF this] c have "set (foldl dedup_step [] ?c) = set spans" by simp
  moreover have "distinct (map (\<lambda>e. set (fst e)) (foldl dedup_step [] ?c))"
    by (rule dedup_distinct) simp
  ultimately show ?thesis by (simp only: dec)
qed

theorem encode_decode_roundtrip_witness:
  "well_formed (length [''a'', ''b'', ''c'', ''d'', ''e'']) [([1, 4], 2), ([2, 3], 3), ([0], 2)]
   \<and> decode_sentence (encode [''a'', ''b'', ''c'', ''d'', ''e'']
         [([1, 4], 2), ([2, 3], 3), ([0], 2)]) 5 = [([0], 2), ([1, 4], 2), ([2, 3], 3)]
   \<and> set (decode_sentence (encode [''a'', ''b'', ''c'', ''d'', ''e'']
         [([1, 4], 2), ([2, 3], 3), ([0], 2)]) (length [''a'', ''b'', ''c'', ''d'', ''e'']))
       = set [([1, 4], 2), ([2, 3], 3), ([0], 2)]"
proof -
  have h: "well_formed (length [''a'', ''b'', ''c'', ''d'', ''e''])
             [([1, 4], 2), ([2, 3], 3), ([0], 2)]"
    by code_simp
  have e: "decode_sentence (encode [''a'', ''b'', ''c'', ''d'', ''e'']
         [([1, 4], 2), ([2, 3], 3), ([0], 2)]) 5 = [([0], 2), ([1, 4], 2), ([2, 3], 3)]"
    by code_simp
  from encode_decode_roundtrip [OF h] h e show ?thesis by blast
qed

text \<open>
  Spans that share a token are not well-formed, and the round trip does not extend to
  them: paths start only at tokens with no incoming continuation edge, so a span that
  begins inside another span's chain is not returned.
\<close>

lemma token_sharing_span_not_returned:
  "\<not> well_formed 5 [([0, 1, 2], 2), ([1, 2], 3)]
   \<and> decode_sentence (encode [''a'', ''b'', ''c'', ''d'', ''e''] [([0, 1, 2], 2), ([1, 2], 3)]) 5
       = [([0, 1, 2], 2)]"
  by code_simp

end
